theory Spec2Isabelle
  imports Main "HOL-Library.Sublist"
begin

section \<open>Values, objects and the shared state\<close>

text \<open>
  The relay server of \<^verbatim>\<open>server.py\<close>: a class-level registry of lobbies, one
  \<^verbatim>\<open>ClientThread\<close> per connection, and a line reader over the connection's socket.

  Python values that arrive in frames are JSON values, as \<^verbatim>\<open>json.loads\<close> builds
  them: \<^verbatim>\<open>None\<close>, booleans, integers, strings, lists and dicts (a dict as its items
  in insertion order). Floating-point numbers are not represented. Python's \<^verbatim>\<open>str\<close>
  is HOL's \<open>string\<close>; a byte is a \<open>char\<close>, which has eight bits.
\<close>

type_synonym byte = char

datatype jval =
    JNull
  | JBool bool
  | JInt int
  | JStr string
  | JArr "jval list"
  | JObj "(string \<times> jval) list"

text \<open>
  Every exception the code can raise is a value. \<open>OutOfDraws\<close> is not a Python
  exception: it marks a call of \<^verbatim>\<open>generate_code\<close> whose loop has not returned on the
  random draws the model was given.
\<close>

datatype error =
    KeyError
  | AttributeError
  | TypeError
  | OSError
  | JSONDecodeError
  | UnicodeDecodeError
  | LobbyDoesntExistException
  | LobbyFullException
  | MismatchedVersionException jval
  | AlreadyConnectedException
  | OutOfDraws

subsection \<open>The library functions the code calls\<close>

text \<open>
  \<^verbatim>\<open>bytes.decode('utf-8')\<close>, \<^verbatim>\<open>json.loads\<close> and \<^verbatim>\<open>repr\<close> belong to Python's library,
  not to the repository. They are parameters of the model: \<open>None\<close> from the first
  two stands for \<^verbatim>\<open>UnicodeDecodeError\<close> and \<^verbatim>\<open>json.JSONDecodeError\<close>.
\<close>

record pylib =
  decode_utf8 :: "byte list \<Rightarrow> string option"
  loads :: "string \<Rightarrow> jval option"
  repr :: "jval \<Rightarrow> string"

text \<open>\<^verbatim>\<open>str(x)\<close>: a string is itself, everything else prints as its \<^verbatim>\<open>repr\<close>.\<close>

fun py_str :: "pylib \<Rightarrow> jval \<Rightarrow> string" where
  "py_str lib (JStr s) = s"
| "py_str lib v = repr lib v"

section \<open>NewlineReceiver\<close>

text \<open>
  A socket is the list of results its successive \<^verbatim>\<open>recv(1024)\<close> calls return: a chunk
  of bytes, or \<^verbatim>\<open>ConnectionResetError\<close>. The empty chunk is what \<^verbatim>\<open>recv\<close> returns once
  the peer has closed, and so is every call after the list is used up.
\<close>

datatype recv_result = Data "byte list" | Reset

record receiver =
  buffer :: "byte list"
  client_socket :: "recv_result list"

definition delimiter :: byte where
  "delimiter = CHR 0x0A"

text \<open>
  The loop \<^verbatim>\<open>while delimiter not in self.buffer\<close>. The result is \<open>None\<close> where the
  code returns \<^verbatim>\<open>None\<close> from inside the loop, and the receiver once the loop is left.
\<close>

fun fill :: "byte list \<Rightarrow> recv_result list \<Rightarrow> receiver \<times> bool" where
  "fill buf [] =
     (\<lparr>buffer = buf, client_socket = []\<rparr>, delimiter \<in> set buf)"
| "fill buf (Reset # rs) =
     (if delimiter \<in> set buf then (\<lparr>buffer = buf, client_socket = Reset # rs\<rparr>, True)
      else (\<lparr>buffer = buf, client_socket = rs\<rparr>, False))"
| "fill buf (Data bs # rs) =
     (if delimiter \<in> set buf then (\<lparr>buffer = buf, client_socket = Data bs # rs\<rparr>, True)
      else if bs = [] then (\<lparr>buffer = buf, client_socket = rs\<rparr>, False)
      else fill (buf @ bs) rs)"

text \<open>\<^verbatim>\<open>bytes.partition(delimiter)\<close> on a buffer that holds the delimiter.\<close>

definition partition_line :: "byte list \<Rightarrow> byte list \<times> byte list" where
  "partition_line buf =
     (takeWhile (\<lambda>b. b \<noteq> delimiter) buf, tl (dropWhile (\<lambda>b. b \<noteq> delimiter) buf))"

text \<open>
  \<^verbatim>\<open>NewlineReceiver.__call__\<close>. The buffer is assigned before the line is decoded, so
  it is updated also when decoding raises.
\<close>

definition recv_call :: "pylib \<Rightarrow> receiver \<Rightarrow> receiver \<times> (error + string option)" where
  "recv_call lib r =
     (case fill (buffer r) (client_socket r) of
        (r1, False) \<Rightarrow> (r1, Inr None)
      | (r1, True) \<Rightarrow>
          (case partition_line (buffer r1) of
             (line, rest) \<Rightarrow>
               (r1\<lparr>buffer := rest\<rparr>,
                case decode_utf8 lib line of
                  None \<Rightarrow> Inl UnicodeDecodeError
                | Some s \<Rightarrow> Inr (Some s))))"

section \<open>Lobby\<close>

text \<open>
  Objects have identity: a \<^verbatim>\<open>ClientThread\<close> is known by a number, and so is a
  \<^verbatim>\<open>Lobby\<close>, which a client and the registry both refer to. The heap holds the
  lobbies by number; \<open>nlobbies\<close> is the number the next \<^verbatim>\<open>Lobby(...)\<close> gets.
\<close>

type_synonym cid = nat
type_synonym lid = nat

text \<open>
  Python compares \<^verbatim>\<open>None\<close>, booleans, integers and strings as \<open>key_of\<close> maps them:
  \<^verbatim>\<open>True\<close> and \<^verbatim>\<open>1\<close> are equal. A list or a dict has no such key (\<open>None\<close> here).
\<close>

datatype key = KNone | KNum int | KStr string

fun key_of :: "jval \<Rightarrow> key option" where
  "key_of JNull = Some KNone"
| "key_of (JBool b) = Some (KNum (if b then 1 else 0))"
| "key_of (JInt i) = Some (KNum i)"
| "key_of (JStr s) = Some (KStr s)"
| "key_of (JArr xs) = None"
| "key_of (JObj kvs) = None"

text \<open>
  Python's \<^verbatim>\<open>==\<close> on these values: lists agree item by item, dicts when they have
  the same keys with equal values, the rest as keys do.
\<close>

fun py_eq :: "jval \<Rightarrow> jval \<Rightarrow> bool"
  and py_eq_list :: "jval list \<Rightarrow> jval list \<Rightarrow> bool"
  and py_eq_items :: "(string \<times> jval) list \<Rightarrow> (string \<times> jval) list \<Rightarrow> bool" where
  "py_eq (JArr xs) (JArr ys) = py_eq_list xs ys"
| "py_eq (JObj kvs) (JObj kws) = (length kvs = length kws \<and> py_eq_items kvs kws)"
| "py_eq a b = (key_of a \<noteq> None \<and> key_of a = key_of b)"
| "py_eq_list [] [] = True"
| "py_eq_list (x # xs) (y # ys) = (py_eq x y \<and> py_eq_list xs ys)"
| "py_eq_list xs ys = False"
| "py_eq_items [] kws = True"
| "py_eq_items ((k, v) # kvs) kws =
     ((case map_of kws k of None \<Rightarrow> False | Some w \<Rightarrow> py_eq v w) \<and> py_eq_items kvs kws)"

text \<open>\<^verbatim>\<open>d[k] = v\<close> on a dict kept as its items in insertion order.\<close>

fun dict_set :: "'k \<Rightarrow> 'v \<Rightarrow> ('k \<times> 'v) list \<Rightarrow> ('k \<times> 'v) list" where
  "dict_set k v [] = [(k, v)]"
| "dict_set k v ((k', v') # kvs) =
     (if k' = k then (k', v) # kvs else (k', v') # dict_set k v kvs)"

text \<open>
  The keys of \<^verbatim>\<open>clients\<close> are names of client threads, which are strings (see
  \<open>client\<close> below). A member entry of \<open>None\<close> is the tombstone the code writes as
  \<^verbatim>\<open>None\<close>; an active entry holds the client thread.
\<close>

record lobby =
  code :: string
  version :: jval
  clients :: "(string \<times> cid option) list"
  max_players :: nat

definition Lobby_init :: "string \<Rightarrow> jval \<Rightarrow> lobby" where
  "Lobby_init cd v = \<lparr>code = cd, version = v, clients = [], max_players = 2\<rparr>"

text \<open>
  \<^verbatim>\<open>ClientThread\<close> is a \<^verbatim>\<open>threading.Thread\<close>, and \<^verbatim>\<open>name\<close> is a property of
  \<^verbatim>\<open>Thread\<close>: its setter stores \<^verbatim>\<open>str(name)\<close>, so what \<^verbatim>\<open>self.name\<close> holds is always a
  string. \<open>game_version\<close> and \<open>lobby\<close> are plain attributes (\<open>JNull\<close> is \<^verbatim>\<open>None\<close>);
  \<open>sock_closed\<close> says that \<^verbatim>\<open>client_socket.close()\<close> has run.
\<close>

record client =
  name :: string
  game_version :: jval
  lobby :: "lid option"
  sock_closed :: bool

text \<open>
  What the server does to the outside, in order: a frame written to a client's socket
  (the frame stands for the line \<^verbatim>\<open>json.dumps\<close> makes of it), and a socket closed.
\<close>

datatype event = Sent cid jval | Closed cid

text \<open>
  \<open>lobbies\<close> is the class attribute \<^verbatim>\<open>Lobby.lobbies\<close>; \<open>rng\<close> is the state of the
  \<^verbatim>\<open>random\<close> module, as the draws it will give.
\<close>

record world =
  lobbies :: "string \<rightharpoonup> lid"
  heap :: "lid \<Rightarrow> lobby"
  nlobbies :: nat
  threads :: "cid \<Rightarrow> client"
  rng :: "nat list"
  trace :: "event list"

text \<open>
  \<^verbatim>\<open>ClientThread.send_json\<close>. Writing to a socket that this server has closed raises
  \<^verbatim>\<open>OSError\<close>; any other write is taken to succeed.
\<close>

definition send_json :: "cid \<Rightarrow> jval \<Rightarrow> world \<Rightarrow> world \<times> error option" where
  "send_json c d w =
     (if sock_closed (threads w c) then (w, Some OSError)
      else (w\<lparr>trace := trace w @ [Sent c d]\<rparr>, None))"

text \<open>
  \<^verbatim>\<open>Lobby.message\<close>: the loop over \<^verbatim>\<open>self.clients.items()\<close>. The test is
  \<^verbatim>\<open>client_thread not in exclude\<close> and nothing else, so a tombstone, which is in no
  exclusion list, reaches \<^verbatim>\<open>client_thread.send_json\<close> and raises \<^verbatim>\<open>AttributeError\<close>.
\<close>

fun message_loop ::
  "(string \<times> cid option) list \<Rightarrow> jval \<Rightarrow> cid list \<Rightarrow> world \<Rightarrow> world \<times> error option" where
  "message_loop [] d exclude w = (w, None)"
| "message_loop ((k, None) # rest) d exclude w = (w, Some AttributeError)"
| "message_loop ((k, Some c) # rest) d exclude w =
     (if c \<in> set exclude then message_loop rest d exclude w
      else (case send_json c d w of
              (w', Some e) \<Rightarrow> (w', Some e)
            | (w', None) \<Rightarrow> message_loop rest d exclude w'))"

definition Lobby_message :: "lid \<Rightarrow> jval \<Rightarrow> cid list \<Rightarrow> world \<Rightarrow> world \<times> error option" where
  "Lobby_message l d exclude w = message_loop (clients (heap w l)) d exclude w"

text \<open>\<^verbatim>\<open>self.clients[k] = v\<close> on the lobby \<open>l\<close>.\<close>

definition set_client :: "lid \<Rightarrow> string \<Rightarrow> cid option \<Rightarrow> world \<Rightarrow> world" where
  "set_client l k v w =
     w\<lparr>heap := (heap w)(l := (heap w l)\<lparr>clients := dict_set k v (clients (heap w l))\<rparr>)\<rparr>"

text \<open>The second loop of \<^verbatim>\<open>Lobby.disconnect\<close>, which does skip the tombstones.\<close>

fun notify_loop :: "(string \<times> cid option) list \<Rightarrow> jval \<Rightarrow> world \<Rightarrow> world \<times> error option" where
  "notify_loop [] d w = (w, None)"
| "notify_loop ((k, None) # rest) d w = notify_loop rest d w"
| "notify_loop ((k, Some c) # rest) d w =
     (case send_json c d w of
        (w', Some e) \<Rightarrow> (w', Some e)
      | (w', None) \<Rightarrow> notify_loop rest d w')"

text \<open>
  \<^verbatim>\<open>Lobby.disconnect\<close>. \<^verbatim>\<open>del self.lobbies[self.code]\<close> raises \<^verbatim>\<open>KeyError\<close> when the
  code is not registered; the tombstone is written by then.
\<close>

definition Lobby_disconnect :: "lid \<Rightarrow> string \<Rightarrow> world \<Rightarrow> world \<times> error option" where
  "Lobby_disconnect l n w =
     (let w1 = set_client l n None w;
          d = JObj [(''action'', JStr ''disconnect''), (''name'', JStr n)]
      in if list_all (\<lambda>e. snd e = None) (clients (heap w1 l)) then
           (if lobbies w1 (code (heap w1 l)) = None then (w1, Some KeyError)
            else let w2 = w1\<lparr>lobbies := (lobbies w1)(code (heap w1 l) := None)\<rparr>
                 in notify_loop (clients (heap w2 l)) d w2)
         else notify_loop (clients (heap w1 l)) d w1)"

text \<open>\<^verbatim>\<open>Lobby.connect\<close>.\<close>

definition Lobby_connect :: "lid \<Rightarrow> cid \<Rightarrow> world \<Rightarrow> world \<times> error option" where
  "Lobby_connect l c w =
     Lobby_message l
       (JObj [(''action'', JStr ''connect''), (''name'', JStr (name (threads w c)))]) []
       (set_client l (name (threads w c)) (Some c) w)"

text \<open>
  \<^verbatim>\<open>random.choice(seq)\<close> takes the item at a drawn index. \<^verbatim>\<open>Lobby.generate_code\<close>
  draws four letters, and again while the code is registered; without draws for
  another round the result is \<open>None\<close>: the loop has not returned.
\<close>

definition alphabet :: string where
  "alphabet = ''ABCDEFGHIJKLMNOPQRSTUVWXYZ''"

definition choice :: "'a list \<Rightarrow> nat \<Rightarrow> 'a" where
  "choice seq r = seq ! (r mod length seq)"

fun generate_code :: "(string \<rightharpoonup> lid) \<Rightarrow> nat list \<Rightarrow> (string \<times> nat list) option" where
  "generate_code reg (r1 # r2 # r3 # r4 # rest) =
     (let cd = map (choice alphabet) [r1, r2, r3, r4]
      in if reg cd = None then Some (cd, rest) else generate_code reg rest)"
| "generate_code reg rs = None"

text \<open>\<^verbatim>\<open>Lobby.create\<close>.\<close>

definition Lobby_create :: "cid \<Rightarrow> jval \<Rightarrow> world \<Rightarrow> world \<times> (error + lid)" where
  "Lobby_create c v w =
     (case generate_code (lobbies w) (rng w) of
        None \<Rightarrow> (w, Inl OutOfDraws)
      | Some (cd, rest) \<Rightarrow>
          let l = nlobbies w;
              w1 = w\<lparr>lobbies := (lobbies w)(cd \<mapsto> l),
                     heap := (heap w)(l := Lobby_init cd v),
                     nlobbies := Suc l,
                     rng := rest\<rparr>
          in (case Lobby_connect l c w1 of
                (w2, Some e) \<Rightarrow> (w2, Inl e)
              | (w2, None) \<Rightarrow>
                  (case Lobby_message l (JObj [(''action'', JStr ''code''), (''code'', JStr cd)]) [] w2 of
                     (w3, Some e) \<Rightarrow> (w3, Inl e)
                   | (w3, None) \<Rightarrow> (w3, Inr l))))"

text \<open>
  \<^verbatim>\<open>code not in cls.lobbies\<close> and \<^verbatim>\<open>cls.lobbies[code]\<close>, for the \<^verbatim>\<open>code\<close> of a frame:
  the registry's keys are strings, so no other hashable value is among them.
\<close>

fun find_lobby :: "(string \<rightharpoonup> lid) \<Rightarrow> jval \<Rightarrow> error + lid" where
  "find_lobby reg (JStr s) =
     (case reg s of None \<Rightarrow> Inl LobbyDoesntExistException | Some l \<Rightarrow> Inr l)"
| "find_lobby reg (JArr xs) = Inl TypeError"
| "find_lobby reg (JObj kvs) = Inl TypeError"
| "find_lobby reg v = Inl LobbyDoesntExistException"

text \<open>\<^verbatim>\<open>Lobby.join\<close>, its four checks in the order of the code.\<close>

definition Lobby_join :: "cid \<Rightarrow> jval \<Rightarrow> jval \<Rightarrow> world \<Rightarrow> world \<times> (error + lid)" where
  "Lobby_join c cd v w =
     (case find_lobby (lobbies w) cd of
        Inl e \<Rightarrow> (w, Inl e)
      | Inr l \<Rightarrow>
          if \<not> py_eq (version (heap w l)) v then
            (w, Inl (MismatchedVersionException (version (heap w l))))
          else (case map_of (clients (heap w l)) (name (threads w c)) of
                  Some (Some c') \<Rightarrow> (w, Inl AlreadyConnectedException)
                | Some None \<Rightarrow>
                    (case Lobby_connect l c w of
                       (w1, Some e) \<Rightarrow> (w1, Inl e)
                     | (w1, None) \<Rightarrow> (w1, Inr l))
                | None \<Rightarrow>
                    if length (clients (heap w l)) \<ge> max_players (heap w l) then
                      (w, Inl LobbyFullException)
                    else (case Lobby_connect l c w of
                            (w1, Some e) \<Rightarrow> (w1, Inl e)
                          | (w1, None) \<Rightarrow> (w1, Inr l))))"

section \<open>ClientThread\<close>

definition error_frame :: "string \<Rightarrow> jval" where
  "error_frame ty = JObj [(''action'', JStr ''error''), (''type'', JStr ty)]"

text \<open>
  The property \<^verbatim>\<open>Thread.name\<close>: \<open>set_name\<close> is the assignment \<^verbatim>\<open>self.name = n\<close>, which
  stores \<^verbatim>\<open>str(n)\<close>, and \<open>get_name\<close> is what \<^verbatim>\<open>self.name\<close> reads, a string. So
  \<^verbatim>\<open>self.name is None\<close>, the test \<open>get_name c w = JNull\<close> of the handlers, is never true.
\<close>

definition set_name :: "pylib \<Rightarrow> cid \<Rightarrow> jval \<Rightarrow> world \<Rightarrow> world" where
  "set_name lib c n w =
     w\<lparr>threads := (threads w)(c := (threads w c)\<lparr>name := py_str lib n\<rparr>)\<rparr>"

definition get_name :: "cid \<Rightarrow> world \<Rightarrow> jval" where
  "get_name c w = JStr (name (threads w c))"

definition set_game_version :: "cid \<Rightarrow> jval \<Rightarrow> world \<Rightarrow> world" where
  "set_game_version c v w =
     w\<lparr>threads := (threads w)(c := (threads w c)\<lparr>game_version := v\<rparr>)\<rparr>"

definition set_lobby :: "cid \<Rightarrow> lid \<Rightarrow> world \<Rightarrow> world" where
  "set_lobby c l w = w\<lparr>threads := (threads w)(c := (threads w c)\<lparr>lobby := Some l\<rparr>)\<rparr>"

text \<open>
  \<^verbatim>\<open>action_identify\<close>: \<^verbatim>\<open>self.name\<close> is assigned before \<^verbatim>\<open>d["game_version"]\<close> is
  looked up. The argument is the dict's items.
\<close>

definition action_identify ::
  "pylib \<Rightarrow> cid \<Rightarrow> (string \<times> jval) list \<Rightarrow> world \<Rightarrow> world \<times> error option" where
  "action_identify lib c d w =
     (case map_of d ''name'' of
        None \<Rightarrow> (w, Some KeyError)
      | Some n \<Rightarrow>
          let w1 = set_name lib c n w
          in (case map_of d ''game_version'' of
                None \<Rightarrow> (w1, Some KeyError)
              | Some v \<Rightarrow>
                  send_json c
                    (JObj [(''action'', JStr ''message''),
                           (''message'',
                            JStr (''Hi '' @ py_str lib (get_name c w1) @ '' using '' @ py_str lib v))])
                    (set_game_version c v w1)))"

definition action_create ::
  "cid \<Rightarrow> (string \<times> jval) list \<Rightarrow> world \<Rightarrow> world \<times> error option" where
  "action_create c d w =
     (if get_name c w = JNull then send_json c (error_frame ''unidentified'') w
      else (case Lobby_create c (game_version (threads w c)) w of
              (w1, Inl e) \<Rightarrow> (w1, Some e)
            | (w1, Inr l) \<Rightarrow> (set_lobby c l w1, None)))"

text \<open>
  \<^verbatim>\<open>action_join\<close>: \<^verbatim>\<open>d["code"]\<close> is evaluated inside the \<^verbatim>\<open>try\<close>, whose four
  \<^verbatim>\<open>except\<close> clauses catch the exceptions of \<^verbatim>\<open>Lobby.join\<close> and no other.
\<close>

definition action_join ::
  "pylib \<Rightarrow> cid \<Rightarrow> (string \<times> jval) list \<Rightarrow> world \<Rightarrow> world \<times> error option" where
  "action_join lib c d w =
     (if get_name c w = JNull then send_json c (error_frame ''unidentified'') w
      else (case map_of d ''code'' of
              None \<Rightarrow> (w, Some KeyError)
            | Some cd \<Rightarrow>
                (case Lobby_join c cd (game_version (threads w c)) w of
                   (w1, Inr l) \<Rightarrow> (set_lobby c l w1, None)
                 | (w1, Inl LobbyDoesntExistException) \<Rightarrow>
                     send_json c (error_frame ''lobby_doesnt_exist'') w1
                 | (w1, Inl (MismatchedVersionException v)) \<Rightarrow>
                     send_json c
                       (JObj [(''action'', JStr ''error''), (''type'', JStr ''mismatched_version''),
                              (''message'', JStr (py_str lib v))])
                       w1
                 | (w1, Inl AlreadyConnectedException) \<Rightarrow>
                     send_json c (error_frame ''already_connected'') w1
                 | (w1, Inl LobbyFullException) \<Rightarrow>
                     send_json c (error_frame ''lobby_full'') w1
                 | (w1, Inl e) \<Rightarrow> (w1, Some e))))"

text \<open>\<^verbatim>\<open>action_turn\<close>; \<^verbatim>\<open>{**d, "name": self.name}\<close> is the dict with \<^verbatim>\<open>name\<close> set.\<close>

definition action_turn ::
  "cid \<Rightarrow> (string \<times> jval) list \<Rightarrow> world \<Rightarrow> world \<times> error option" where
  "action_turn c d w =
     (if get_name c w = JNull then send_json c (error_frame ''unidentified'') w
      else (case lobby (threads w c) of
              None \<Rightarrow> send_json c (error_frame ''not_in_lobby'') w
            | Some l \<Rightarrow>
                Lobby_message l (JObj (dict_set ''name'' (get_name c w) d)) [c] w))"

text \<open>
  \<^verbatim>\<open>handle_message\<close>. \<^verbatim>\<open>json.loads\<close> may give a value that is no dict: then
  \<^verbatim>\<open>"action" not in d\<close> is membership in a list, the substring test on a string, and
  a \<^verbatim>\<open>TypeError\<close> on the rest; where it is false, \<^verbatim>\<open>d["action"]\<close> raises \<^verbatim>\<open>TypeError\<close>
  on a list or a string.
\<close>

fun handle_message :: "pylib \<Rightarrow> cid \<Rightarrow> jval \<Rightarrow> world \<Rightarrow> world \<times> error option" where
  "handle_message lib c (JObj d) w =
     (case map_of d ''action'' of
        None \<Rightarrow> send_json c (error_frame ''unknown_action'') w
      | Some a \<Rightarrow>
          if a = JStr ''identify'' then action_identify lib c d w
          else if a = JStr ''create'' then action_create c d w
          else if a = JStr ''join'' then action_join lib c d w
          else if a = JStr ''turn'' then action_turn c d w
          else send_json c (error_frame ''unknown_action'') w)"
| "handle_message lib c (JArr xs) w =
     (if JStr ''action'' \<in> set xs then (w, Some TypeError)
      else send_json c (error_frame ''unknown_action'') w)"
| "handle_message lib c (JStr s) w =
     (if sublist ''action'' s then (w, Some TypeError)
      else send_json c (error_frame ''unknown_action'') w)"
| "handle_message lib c v w = (w, Some TypeError)"

text \<open>
  The part of \<^verbatim>\<open>run\<close> after its loop: \<^verbatim>\<open>self.lobby.disconnect(self.name)\<close> when there
  is a lobby, then \<^verbatim>\<open>self.client_socket.close()\<close>.
\<close>

definition close_socket :: "cid \<Rightarrow> world \<Rightarrow> world" where
  "close_socket c w =
     w\<lparr>threads := (threads w)(c := (threads w c)\<lparr>sock_closed := True\<rparr>),
       trace := trace w @ [Closed c]\<rparr>"

definition run_exit :: "cid \<Rightarrow> world \<Rightarrow> world \<times> error option" where
  "run_exit c w =
     (case lobby (threads w c) of
        None \<Rightarrow> (close_socket c w, None)
      | Some l \<Rightarrow>
          (case Lobby_disconnect l (name (threads w c)) w of
             (w1, Some e) \<Rightarrow> (w1, Some e)
           | (w1, None) \<Rightarrow> (close_socket c w1, None)))"

text \<open>
  What is left to read: the bytes in the buffer, and for each result the socket will
  still give, its bytes and one more. Every line that \<^verbatim>\<open>recv\<close> returns makes it
  smaller, so the loop of \<^verbatim>\<open>run\<close> ends on every socket of the model.
\<close>

fun chunk_bytes :: "recv_result \<Rightarrow> byte list" where
  "chunk_bytes (Data bs) = bs"
| "chunk_bytes Reset = []"

definition pending :: "receiver \<Rightarrow> nat" where
  "pending r =
     length (buffer r) + sum_list (map (\<lambda>e. Suc (length (chunk_bytes e))) (client_socket r))"

lemma fill_pending: "fill buf rs = (r1, ok) \<Longrightarrow>
    pending r1 \<le> pending \<lparr>buffer = buf, client_socket = rs\<rparr>"
proof (induction buf rs arbitrary: r1 ok rule: fill.induct)
  case (1 buf)
  then show ?case by (auto simp: pending_def)
next
  case (2 buf rs)
  then show ?case by (auto simp: pending_def split: if_splits)
next
  case (3 buf bs rs)
  show ?case
  proof (cases "delimiter \<in> set buf \<or> bs = []")
    case True
    with 3 show ?thesis by (auto simp: pending_def split: if_splits)
  next
    case False
    with "3.prems" have "fill (buf @ bs) rs = (r1, ok)" by simp
    with "3.IH" False have "pending r1 \<le> pending \<lparr>buffer = buf @ bs, client_socket = rs\<rparr>"
      by blast
    then show ?thesis by (simp add: pending_def)
  qed
qed

lemma fill_found: "fill buf rs = (r1, True) \<Longrightarrow> delimiter \<in> set (buffer r1)"
  by (induction buf rs arbitrary: r1 rule: fill.induct) (auto split: if_splits)

lemma partition_line_shorter:
  "delimiter \<in> set buf \<Longrightarrow> length (snd (partition_line buf)) < length buf"
proof -
  assume "delimiter \<in> set buf"
  then have "dropWhile (\<lambda>b. b \<noteq> delimiter) buf \<noteq> []"
    by (simp add: dropWhile_eq_Nil_conv)
  then have "length (tl (dropWhile (\<lambda>b. b \<noteq> delimiter) buf))
      < length (dropWhile (\<lambda>b. b \<noteq> delimiter) buf)"
    by (cases "dropWhile (\<lambda>b. b \<noteq> delimiter) buf") simp_all
  also have "\<dots> \<le> length buf" by (rule length_dropWhile_le)
  finally show ?thesis by (simp add: partition_line_def)
qed

lemma recv_call_pending:
  assumes "recv_call lib r = (r', Inr (Some m))"
  shows "pending r' < pending r"
proof -
  obtain r1 ok where f: "fill (buffer r) (client_socket r) = (r1, ok)"
    by (cases "fill (buffer r) (client_socket r)")
  with assms have ok: ok by (cases ok) (simp_all add: recv_call_def)
  obtain line rest where p: "partition_line (buffer r1) = (line, rest)"
    by (cases "partition_line (buffer r1)")
  from f ok p assms have r': "r' = r1\<lparr>buffer := rest\<rparr>"
    by (simp add: recv_call_def)
  from f ok have "delimiter \<in> set (buffer r1)" by (simp add: fill_found)
  from partition_line_shorter[OF this] p have "length rest < length (buffer r1)" by simp
  with r' have "pending r' < pending r1" by (simp add: pending_def)
  also from fill_pending[OF f] have "pending r1 \<le> pending r" by (simp add: pending_def)
  finally show ?thesis .
qed

text \<open>
  The loop of \<^verbatim>\<open>run\<close>. An exception of \<^verbatim>\<open>recv\<close>, of \<^verbatim>\<open>json.loads\<close> or of the handler
  leaves the loop and the method with the state as it is then.
\<close>

function run_loop :: "pylib \<Rightarrow> cid \<Rightarrow> receiver \<Rightarrow> world \<Rightarrow> world \<times> error option" where
  "run_loop lib c r w =
     (case recv_call lib r of
        (r', Inl e) \<Rightarrow> (w, Some e)
      | (r', Inr None) \<Rightarrow> (w, None)
      | (r', Inr (Some m)) \<Rightarrow>
          (case loads lib m of
             None \<Rightarrow> (w, Some JSONDecodeError)
           | Some d \<Rightarrow>
               (case handle_message lib c d w of
                  (w', Some e) \<Rightarrow> (w', Some e)
                | (w', None) \<Rightarrow> run_loop lib c r' w')))"
  by pat_completeness auto
termination
  by (relation "measure (\<lambda>(lib, c, r, w). pending r)")
    (auto intro: recv_call_pending [OF sym])

definition run :: "pylib \<Rightarrow> cid \<Rightarrow> receiver \<Rightarrow> world \<Rightarrow> world \<times> error option" where
  "run lib c r w =
     (case run_loop lib c r w of
        (w1, Some e) \<Rightarrow> (w1, Some e)
      | (w1, None) \<Rightarrow> run_exit c w1)"

section \<open>The vocabulary of the properties\<close>

subsection \<open>The stream a receiver reads\<close>

text \<open>
  A result of \<^verbatim>\<open>recv\<close> that carries data is a chunk; the other results end the
  stream. \<open>payload\<close> is the bytes a list of results delivers.
\<close>

fun is_chunk :: "recv_result \<Rightarrow> bool" where
  "is_chunk (Data bs) = (bs \<noteq> [])"
| "is_chunk Reset = False"

definition payload :: "recv_result list \<Rightarrow> byte list" where
  "payload rs = concat (map chunk_bytes rs)"

subsection \<open>The states the server can be in\<close>

text \<open>
  The server starts with an empty registry; every connection that \<^verbatim>\<open>main\<close> accepts
  gets a \<^verbatim>\<open>ClientThread\<close> with no version and no lobby, and with the name that
  \<^verbatim>\<open>self.name = None\<close> leaves: the string \<^verbatim>\<open>str(None)\<close>. The lobbies of the heap that are
  not allocated yet do not matter.
\<close>

definition new_client :: client where
  "new_client = \<lparr>name = ''None'', game_version = JNull, lobby = None, sock_closed = False\<rparr>"

definition init_world :: "nat list \<Rightarrow> world" where
  "init_world draws =
     \<lparr>lobbies = Map.empty, heap = (\<lambda>l. Lobby_init [] JNull), nlobbies = 0,
      threads = (\<lambda>c. new_client), rng = draws, trace = []\<rparr>"

text \<open>
  The states that the handlers of the connections lead to, one frame (any value that
  \<^verbatim>\<open>json.loads\<close> can give) or one end of stream at a time, from any draws of the random
  module and with any library functions.
\<close>

inductive reachable :: "world \<Rightarrow> bool" where
  start: "reachable (init_world draws)"
| message: "reachable w \<Longrightarrow> reachable (fst (handle_message lib c d w))"
| exit: "reachable w \<Longrightarrow> reachable (fst (run_exit c w))"

text \<open>
  The registry is in order when every registered lobby is an allocated object that
  carries the code it is registered under and has an entry that is no tombstone.
\<close>

definition active :: "lobby \<Rightarrow> bool" where
  "active lb = list_ex (\<lambda>e. snd e \<noteq> None) (clients lb)"

definition registry_ok :: "world \<Rightarrow> bool" where
  "registry_ok w =
     (\<forall>s l. lobbies w s = Some l \<longrightarrow>
        l < nlobbies w \<and> code (heap w l) = s \<and> active (heap w l))"

subsection \<open>Members that can be written to\<close>

text \<open>An entry of a lobby that is an active member whose socket is open.\<close>

fun open_entry :: "world \<Rightarrow> string \<times> cid option \<Rightarrow> bool" where
  "open_entry w (k, None) = False"
| "open_entry w (k, Some c) = (\<not> sock_closed (threads w c))"

subsection \<open>Steps that only write to sockets\<close>

definition sends_only :: "world \<Rightarrow> world \<Rightarrow> bool" where
  "sends_only w w' = (\<exists>evs. w' = w\<lparr>trace := trace w @ evs\<rparr>)"

section \<open>A session to evaluate the model on\<close>

text \<open>
  The frames that \<^verbatim>\<open>test_client.py\<close> sends.
\<close>

definition identify_frame :: "string \<Rightarrow> string \<Rightarrow> jval" where
  "identify_frame n v =
     JObj [(''action'', JStr ''identify''), (''name'', JStr n), (''game_version'', JStr v)]"

definition create_frame :: jval where
  "create_frame = JObj [(''action'', JStr ''create'')]"

definition join_frame :: "string \<Rightarrow> jval" where
  "join_frame cd = JObj [(''action'', JStr ''join''), (''code'', JStr cd)]"

text \<open>
  Library functions for the evaluations. The decoder is UTF-8 on 7-bit bytes, where
  it changes nothing, and refuses every other byte. \<open>eval_loads\<close> knows one JSON text,
  \<^verbatim>\<open>{"action": "join"}\<close>, and refuses the rest, among it the text \<^verbatim>\<open>not json\<close>, which
  \<^verbatim>\<open>json.loads\<close> refuses too. \<open>eval_repr\<close> is \<^verbatim>\<open>repr\<close> on \<^verbatim>\<open>None\<close> and the booleans;
  no evaluation below prints another value that is no string.
\<close>

definition ascii_decode :: "byte list \<Rightarrow> string option" where
  "ascii_decode bs = (if list_all (\<lambda>b. \<not> digit7 b) bs then Some bs else None)"

definition quoted :: "string \<Rightarrow> string" where
  "quoted s = CHR 0x22 # s @ [CHR 0x22]"

definition join_without_code_text :: string where
  "join_without_code_text = ''{'' @ quoted ''action'' @ '': '' @ quoted ''join'' @ ''}''"

definition eval_loads :: "string \<Rightarrow> jval option" where
  "eval_loads s =
     (if s = join_without_code_text then Some (JObj [(''action'', JStr ''join'')]) else None)"

fun eval_repr :: "jval \<Rightarrow> string" where
  "eval_repr JNull = ''None''"
| "eval_repr (JBool b) = (if b then ''True'' else ''False'')"
| "eval_repr v = []"

definition eval_lib :: pylib where
  "eval_lib = \<lparr>decode_utf8 = ascii_decode, loads = eval_loads, repr = eval_repr\<rparr>"

text \<open>
  The scenario of the specification: client 0 identifies as Alice with version v1
  and creates a lobby, for which the draws 0, 1, 2, 3 give the code ABCD; client 1
  identifies as Bob with the same version and joins it; then Bob's stream ends.
\<close>

definition alice_world :: world where
  "alice_world =
     fst (handle_message eval_lib 0 create_frame
       (fst (handle_message eval_lib 0 (identify_frame ''Alice'' ''v1'')
         (init_world [0, 1, 2, 3, 4, 5, 6, 7]))))"

definition pair_world :: world where
  "pair_world =
     fst (handle_message eval_lib 1 (join_frame ''ABCD'')
       (fst (handle_message eval_lib 1 (identify_frame ''Bob'' ''v1'') alice_world)))"

definition bob_gone_world :: world where
  "bob_gone_world = fst (run_exit 1 pair_world)"

text \<open>A third client, Carol, identifies with the lobby's version after Bob has gone.\<close>

definition carol_world :: world where
  "carol_world = fst (handle_message eval_lib 2 (identify_frame ''Carol'' ''v1'') bob_gone_world)"

text \<open>Or, with Bob still there, a third client identifies with another version.\<close>

definition v2_world :: world where
  "v2_world = fst (handle_message eval_lib 2 (identify_frame ''Carol'' ''v2'') pair_world)"

text \<open>Or Alice, alone in her lobby, sends \<^verbatim>\<open>create\<close> once more.\<close>

definition two_lobby_world :: world where
  "two_lobby_world = fst (handle_message eval_lib 0 create_frame alice_world)"

lemmas session_defs =
  new_client_def init_world_def identify_frame_def create_frame_def join_frame_def
  eval_lib_def action_identify_def action_create_def action_join_def action_turn_def
  send_json_def set_name_def get_name_def set_game_version_def set_lobby_def Lobby_create_def
  Lobby_connect_def Lobby_message_def Lobby_join_def Lobby_disconnect_def set_client_def
  Lobby_init_def alphabet_def choice_def error_frame_def run_exit_def close_socket_def Let_def

lemma alice_world_eq:
  "alice_world =
     \<lparr>lobbies = [''ABCD'' \<mapsto> 0],
      heap = (\<lambda>l. \<lparr>code = [], version = JNull, clients = [], max_players = 2\<rparr>)
        (0 := \<lparr>code = ''ABCD'', version = JStr ''v1'',
               clients = [(''Alice'', Some 0)], max_players = 2\<rparr>),
      nlobbies = 1,
      threads = (\<lambda>c. \<lparr>name = ''None'', game_version = JNull, lobby = None, sock_closed = False\<rparr>)
        (0 := \<lparr>name = ''Alice'', game_version = JStr ''v1'', lobby = Some 0,
               sock_closed = False\<rparr>),
      rng = [4, 5, 6, 7],
      trace =
        [Sent 0 (JObj [(''action'', JStr ''message''), (''message'', JStr ''Hi Alice using v1'')]),
         Sent 0 (JObj [(''action'', JStr ''connect''), (''name'', JStr ''Alice'')]),
         Sent 0 (JObj [(''action'', JStr ''code''), (''code'', JStr ''ABCD'')])]\<rparr>"
  by (simp add: alice_world_def session_defs)

lemma pair_world_eq:
  "pair_world =
     \<lparr>lobbies = [''ABCD'' \<mapsto> 0],
      heap = (\<lambda>l. \<lparr>code = [], version = JNull, clients = [], max_players = 2\<rparr>)
        (0 := \<lparr>code = ''ABCD'', version = JStr ''v1'',
               clients = [(''Alice'', Some 0), (''Bob'', Some 1)], max_players = 2\<rparr>),
      nlobbies = 1,
      threads = (\<lambda>c. \<lparr>name = ''None'', game_version = JNull, lobby = None, sock_closed = False\<rparr>)
        (0 := \<lparr>name = ''Alice'', game_version = JStr ''v1'', lobby = Some 0,
               sock_closed = False\<rparr>,
         1 := \<lparr>name = ''Bob'', game_version = JStr ''v1'', lobby = Some 0,
               sock_closed = False\<rparr>),
      rng = [4, 5, 6, 7],
      trace = trace alice_world @
        [Sent 1 (JObj [(''action'', JStr ''message''), (''message'', JStr ''Hi Bob using v1'')]),
         Sent 0 (JObj [(''action'', JStr ''connect''), (''name'', JStr ''Bob'')]),
         Sent 1 (JObj [(''action'', JStr ''connect''), (''name'', JStr ''Bob'')])]\<rparr>"
  by (simp add: pair_world_def alice_world_eq session_defs)

lemma bob_gone_world_eq:
  "bob_gone_world =
     \<lparr>lobbies = [''ABCD'' \<mapsto> 0],
      heap = (\<lambda>l. \<lparr>code = [], version = JNull, clients = [], max_players = 2\<rparr>)
        (0 := \<lparr>code = ''ABCD'', version = JStr ''v1'',
               clients = [(''Alice'', Some 0), (''Bob'', None)], max_players = 2\<rparr>),
      nlobbies = 1,
      threads = (\<lambda>c. \<lparr>name = ''None'', game_version = JNull, lobby = None, sock_closed = False\<rparr>)
        (0 := \<lparr>name = ''Alice'', game_version = JStr ''v1'', lobby = Some 0,
               sock_closed = False\<rparr>,
         1 := \<lparr>name = ''Bob'', game_version = JStr ''v1'', lobby = Some 0,
               sock_closed = True\<rparr>),
      rng = [4, 5, 6, 7],
      trace = trace pair_world @
        [Sent 0 (JObj [(''action'', JStr ''disconnect''), (''name'', JStr ''Bob'')]),
         Closed 1]\<rparr>"
  by (simp add: bob_gone_world_def pair_world_eq session_defs)

lemma carol_world_eq:
  "carol_world =
     bob_gone_world
       \<lparr>threads := (threads bob_gone_world)
          (2 := \<lparr>name = ''Carol'', game_version = JStr ''v1'', lobby = None,
                 sock_closed = False\<rparr>),
        trace := trace bob_gone_world @
          [Sent 2 (JObj [(''action'', JStr ''message''),
                         (''message'', JStr ''Hi Carol using v1'')])]\<rparr>"
  by (simp add: carol_world_def bob_gone_world_eq session_defs)

lemma v2_world_eq:
  "v2_world =
     pair_world
       \<lparr>threads := (threads pair_world)
          (2 := \<lparr>name = ''Carol'', game_version = JStr ''v2'', lobby = None,
                 sock_closed = False\<rparr>),
        trace := trace pair_world @
          [Sent 2 (JObj [(''action'', JStr ''message''),
                         (''message'', JStr ''Hi Carol using v2'')])]\<rparr>"
  by (simp add: v2_world_def pair_world_eq session_defs)

lemma reachable_alice_world: "reachable alice_world"
  unfolding alice_world_def
  by (intro reachable.message reachable.start)

lemma reachable_pair_world: "reachable pair_world"
  unfolding pair_world_def
  by (intro reachable.message reachable_alice_world)

lemma reachable_bob_gone_world: "reachable bob_gone_world"
  unfolding bob_gone_world_def by (intro reachable.exit reachable_pair_world)

lemma reachable_carol_world: "reachable carol_world"
  unfolding carol_world_def
  by (intro reachable.message reachable_bob_gone_world)

lemma reachable_two_lobby_world: "reachable two_lobby_world"
  unfolding two_lobby_world_def
  by (intro reachable.message reachable_alice_world)

section \<open>The line reader\<close>

lemma payload_simps [simp]:
  "payload [] = []" "payload (e # rs) = chunk_bytes e @ payload rs"
  "payload (xs @ ys) = payload xs @ payload ys"
  by (simp_all add: payload_def)

lemma fill_spec:
  "fill buf rs = (r1, ok) \<Longrightarrow>
   \<exists>used. rs = used @ client_socket r1 \<and> buffer r1 = buf @ payload used \<and>
     (\<forall>j < length used. delimiter \<notin> set (buf @ payload (take j used))) \<and>
     (if ok then list_all is_chunk used \<and> delimiter \<in> set (buffer r1)
      else delimiter \<notin> set (buffer r1) \<and>
           (list_all is_chunk used \<and> client_socket r1 = [] \<or>
            used \<noteq> [] \<and> list_all is_chunk (butlast used) \<and> \<not> is_chunk (last used)))"
proof (induction buf rs arbitrary: r1 ok rule: fill.induct)
  case (1 buf)
  then show ?case by auto
next
  case (2 buf rs)
  show ?case
  proof (cases "delimiter \<in> set buf")
    case True
    with 2 show ?thesis by auto
  next
    case False
    with 2 have "r1 = \<lparr>buffer = buf, client_socket = rs\<rparr>" "\<not> ok" by auto
    with False show ?thesis
      by (intro exI[of _ "[Reset]"]) auto
  qed
next
  case (3 buf bs rs)
  show ?case
  proof (cases "delimiter \<in> set buf")
    case True
    with 3 show ?thesis by auto
  next
    case nd: False
    show ?thesis
    proof (cases "bs = []")
      case True
      with nd 3 have "r1 = \<lparr>buffer = buf, client_socket = rs\<rparr>" "\<not> ok" by auto
      with nd True show ?thesis
        by (intro exI[of _ "[Data []]"]) auto
    next
      case False
      with nd 3 have f: "fill (buf @ bs) rs = (r1, ok)" by simp
      from "3.IH"[OF nd False f] obtain used where u:
        "rs = used @ client_socket r1" "buffer r1 = (buf @ bs) @ payload used"
        "\<forall>j < length used. delimiter \<notin> set ((buf @ bs) @ payload (take j used))"
        "if ok then list_all is_chunk used \<and> delimiter \<in> set (buffer r1)
         else delimiter \<notin> set (buffer r1) \<and>
           (list_all is_chunk used \<and> client_socket r1 = [] \<or>
            used \<noteq> [] \<and> list_all is_chunk (butlast used) \<and> \<not> is_chunk (last used))"
        by blast
      have j: "\<forall>j < length (Data bs # used). delimiter \<notin> set (buf @ payload (take j (Data bs # used)))"
      proof (intro allI impI)
        fix j assume "j < length (Data bs # used)"
        then show "delimiter \<notin> set (buf @ payload (take j (Data bs # used)))"
          using nd u(3) by (cases j) auto
      qed
      show ?thesis
        apply (rule exI[of _ "Data bs # used"])
        using u(1,2,4) j False nd
        apply (auto split: if_splits)
        done
    qed
  qed
qed


lemma fill_eos:
  "delimiter \<notin> set (buf @ payload (takeWhile is_chunk rs)) \<Longrightarrow> \<not> snd (fill buf rs)"
  by (induction buf rs rule: fill.induct) auto

lemma partition_line_spec:
  assumes "delimiter \<in> set buf" and "partition_line buf = (line, rest)"
  shows "buf = line @ delimiter # rest \<and> delimiter \<notin> set line"
proof -
  let ?P = "\<lambda>b. b \<noteq> delimiter"
  from assms(1) have ne: "dropWhile ?P buf \<noteq> []" by (simp add: dropWhile_eq_Nil_conv)
  then have "hd (dropWhile ?P buf) = delimiter" using hd_dropWhile[of ?P buf] by simp
  with ne have "dropWhile ?P buf = delimiter # tl (dropWhile ?P buf)"
    by (cases "dropWhile ?P buf") auto
  then have "buf = takeWhile ?P buf @ delimiter # tl (dropWhile ?P buf)"
    using takeWhile_dropWhile_id[of ?P buf] by simp
  moreover have "delimiter \<notin> set (takeWhile ?P buf)"
    using set_takeWhileD by fastforce
  ultimately show ?thesis using assms(2) by (simp add: partition_line_def)
qed

text \<open>
  Claim C9. A call of the receiver uses up a prefix \<open>used\<close> of the results its socket
  gives, and no result is read once the accumulator, the buffer with the bytes read so
  far, holds a delimiter. When the call returns a line, every result read was a chunk,
  the accumulator is that line, the delimiter and the buffer kept for the next call,
  the line holds no delimiter, and the value returned is the line decoded (or
  \<^verbatim>\<open>UnicodeDecodeError\<close> when it cannot be decoded). When it returns \<^verbatim>\<open>None\<close>, the bytes
  read stay in the buffer, which holds no delimiter, and the stream has ended: the
  last result read was a reset or the empty chunk of a closed peer, or the socket had
  nothing more. And when the stream ends, by a close or a reset, before the
  accumulator holds a delimiter, the call returns \<^verbatim>\<open>None\<close> and raises nothing.
\<close>

theorem recv_call_spec:
  assumes "recv_call lib r = (r', res)"
  shows "(\<exists>used. client_socket r = used @ client_socket r' \<and>
      (\<forall>j < length used. delimiter \<notin> set (buffer r @ payload (take j used))) \<and>
      (case res of
         Inr None \<Rightarrow>
           buffer r' = buffer r @ payload used \<and> delimiter \<notin> set (buffer r') \<and>
           (list_all is_chunk used \<and> client_socket r' = [] \<or>
            used \<noteq> [] \<and> list_all is_chunk (butlast used) \<and> \<not> is_chunk (last used))
       | _ \<Rightarrow>
           list_all is_chunk used \<and>
           (\<exists>line. buffer r @ payload used = line @ delimiter # buffer r' \<and>
              delimiter \<notin> set line \<and>
              res = (case decode_utf8 lib line of
                       None \<Rightarrow> Inl UnicodeDecodeError | Some s \<Rightarrow> Inr (Some s))))) \<and>
    (delimiter \<notin> set (buffer r @ payload (takeWhile is_chunk (client_socket r)))
       \<longrightarrow> res = Inr None)"
proof -
  obtain r1 ok where f: "fill (buffer r) (client_socket r) = (r1, ok)"
    by (cases "fill (buffer r) (client_socket r)")
  from fill_spec[OF f] obtain used where u:
    "client_socket r = used @ client_socket r1" "buffer r1 = buffer r @ payload used"
    "\<forall>j < length used. delimiter \<notin> set (buffer r @ payload (take j used))"
    "if ok then list_all is_chunk used \<and> delimiter \<in> set (buffer r1)
     else delimiter \<notin> set (buffer r1) \<and>
       (list_all is_chunk used \<and> client_socket r1 = [] \<or>
        used \<noteq> [] \<and> list_all is_chunk (butlast used) \<and> \<not> is_chunk (last used))"
    by blast
  have eos: "delimiter \<notin> set (buffer r @ payload (takeWhile is_chunk (client_socket r)))
       \<longrightarrow> res = Inr None"
  proof
    assume "delimiter \<notin> set (buffer r @ payload (takeWhile is_chunk (client_socket r)))"
    from fill_eos[OF this] f have "\<not> ok" by simp
    with f assms show "res = Inr None" by (simp add: recv_call_def)
  qed
  show ?thesis
  proof (cases ok)
    case False
    with f assms have "r' = r1" "res = Inr None" by (simp_all add: recv_call_def)
    with u False eos show ?thesis by (intro conjI exI[of _ used]) auto
  next
    case True
    obtain line rest where p: "partition_line (buffer r1) = (line, rest)"
      by (cases "partition_line (buffer r1)")
    from True u(4) have d: "delimiter \<in> set (buffer r1)" "list_all is_chunk used" by auto
    from partition_line_spec[OF d(1) p]
    have l: "buffer r1 = line @ delimiter # rest" "delimiter \<notin> set line" by auto
    from True f p assms have r': "r' = r1\<lparr>buffer := rest\<rparr>"
      and res: "res = (case decode_utf8 lib line of
                       None \<Rightarrow> Inl UnicodeDecodeError | Some s \<Rightarrow> Inr (Some s))"
      by (simp_all add: recv_call_def)
    have body: "list_all is_chunk used \<and>
           (\<exists>line. buffer r @ payload used = line @ delimiter # buffer r' \<and>
              delimiter \<notin> set line \<and>
              res = (case decode_utf8 lib line of
                       None \<Rightarrow> Inl UnicodeDecodeError | Some s \<Rightarrow> Inr (Some s)))"
      using d(2) l u(2) r' res by (intro conjI exI[of _ line]) simp_all
    have sel: "\<And>A B. (case res of Inr None \<Rightarrow> A | _ \<Rightarrow> B) = B"
      using res by (cases "decode_utf8 lib line") simp_all
    have "client_socket r = used @ client_socket r'" using u(1) r' by simp
    with u(3) body eos show ?thesis
      unfolding sel by (intro conjI exI[of _ used]) simp_all
  qed
qed


theorem recv_call_spec_witness:
  "recv_call eval_lib \<lparr>buffer = ''a'', client_socket = [Data (''b'' @ [CHR 0x0A] @ ''c''), Data ''d'']\<rparr>
     = (\<lparr>buffer = ''c'', client_socket = [Data ''d'']\<rparr>, Inr (Some ''ab'')) \<and>
   (\<exists>used. [Data (''b'' @ [CHR 0x0A] @ ''c''), Data ''d''] = used @ [Data ''d''] \<and>
      list_all is_chunk used \<and>
      (\<exists>line. ''a'' @ payload used = line @ delimiter # ''c'' \<and>
         Inr (Some ''ab'') = (case decode_utf8 eval_lib line of
                        None \<Rightarrow> Inl UnicodeDecodeError | Some s \<Rightarrow> Inr (Some s))))"
proof -
  have h: "recv_call eval_lib
      \<lparr>buffer = ''a'', client_socket = [Data (''b'' @ [CHR 0x0A] @ ''c''), Data ''d'']\<rparr>
     = (\<lparr>buffer = ''c'', client_socket = [Data ''d'']\<rparr>, Inr (Some ''ab''))"
    by (simp add: recv_call_def partition_line_def delimiter_def eval_lib_def ascii_decode_def)
  from recv_call_spec [OF h] h show ?thesis by auto
qed

section \<open>Writing to sockets\<close>

lemma sends_only_refl [simp]: "sends_only w w"
  unfolding sends_only_def by (rule exI[of _ "[]"]) simp

lemma sends_only_trans: "sends_only w w1 \<Longrightarrow> sends_only w1 w2 \<Longrightarrow> sends_only w w2"
  by (auto simp: sends_only_def)

lemma sends_only_fields:
  assumes "sends_only w w'"
  shows "lobbies w' = lobbies w" "heap w' = heap w" "nlobbies w' = nlobbies w"
    "threads w' = threads w" "rng w' = rng w"
  using assms by (auto simp: sends_only_def)

lemma send_json_cases:
  assumes "send_json c d w = (w', r)"
  shows "(sock_closed (threads w c) \<and> r = Some OSError \<and> w' = w) \<or>
         (\<not> sock_closed (threads w c) \<and> r = None \<and> w' = w\<lparr>trace := trace w @ [Sent c d]\<rparr>)"
  using assms by (auto simp: send_json_def split: if_splits)

lemma send_json_sends: "send_json c d w = (w', r) \<Longrightarrow> sends_only w w'"
  by (cases "sock_closed (threads w c)") (auto simp: send_json_def sends_only_def)

lemma send_json_open:
  "\<not> sock_closed (threads w c) \<Longrightarrow> send_json c d w = (w\<lparr>trace := trace w @ [Sent c d]\<rparr>, None)"
  by (simp add: send_json_def)

lemma message_loop_sends: "message_loop cs d ex w = (w', r) \<Longrightarrow> sends_only w w'"
proof (induction cs d ex w rule: message_loop.induct)
  case (3 k c rest d exclude w)
  show ?case
  proof (cases "c \<in> set exclude")
    case True
    with 3 show ?thesis by simp
  next
    case False
    obtain w1 r1 where s: "send_json c d w = (w1, r1)" by (cases "send_json c d w")
    show ?thesis
    proof (cases r1)
      case None
      with 3 False s have "sends_only w1 w'" by simp
      with send_json_sends[OF s] show ?thesis by (rule sends_only_trans)
    next
      case (Some e)
      with "3.prems" False s have "w' = w1" by simp
      with send_json_sends[OF s] show ?thesis by simp
    qed
  qed
qed simp_all

lemma message_loop_error:
  "message_loop cs d ex w = (w', Some e) \<Longrightarrow> e = AttributeError \<or> e = OSError"
proof (induction cs d ex w rule: message_loop.induct)
  case (3 k c rest d exclude w)
  then show ?case
    by (auto split: if_splits prod.splits option.splits dest: send_json_cases)
qed simp_all

lemma notify_loop_sends: "notify_loop cs d w = (w', r) \<Longrightarrow> sends_only w w'"
proof (induction cs d w rule: notify_loop.induct)
  case (3 k c rest d w)
  obtain w1 r1 where s: "send_json c d w = (w1, r1)" by (cases "send_json c d w")
  show ?case
  proof (cases r1)
    case None
    with 3 s have "sends_only w1 w'" by simp
    with send_json_sends[OF s] show ?thesis by (rule sends_only_trans)
  next
    case (Some e)
    with "3.prems" s have "w' = w1" by simp
    with send_json_sends[OF s] show ?thesis by simp
  qed
qed simp_all

lemma Lobby_connect_error:
  "Lobby_connect l c w = (w', Some e) \<Longrightarrow> e = AttributeError \<or> e = OSError"
  by (auto simp: Lobby_connect_def Lobby_message_def dest: message_loop_error)

lemma get_name_not_None [simp]: "get_name c w \<noteq> JNull"
  by (simp add: get_name_def)

lemma Lobby_connect_not_full: "Lobby_connect l c w \<noteq> (w', Some LobbyFullException)"
  using Lobby_connect_error[of l c w w' LobbyFullException] by auto

section \<open>Broadcast and tombstones\<close>

text \<open>
  Claim C2. Broadcast should deliver to the active members outside the exclusion list
  and never try a tombstone. Evaluated on the state where Bob has gone and his entry
  in lobby 0 is a tombstone: Alice's turn makes \<^verbatim>\<open>Lobby.message\<close> reach the tombstone,
  the call raises \<^verbatim>\<open>AttributeError\<close>, and nothing has been sent.
\<close>

theorem message_reaches_tombstone:
  "handle_message eval_lib 0 (JObj [(''action'', JStr ''turn''), (''move'', JInt 5)]) bob_gone_world
     = (bob_gone_world, Some AttributeError) \<and>
   Lobby_message 0 (JObj [(''action'', JStr ''turn''), (''move'', JInt 5), (''name'', JStr ''Alice'')])
       [0] bob_gone_world
     = (bob_gone_world, Some AttributeError) \<and>
   clients (heap bob_gone_world 0) = [(''Alice'', Some 0), (''Bob'', None)]"
  by (simp add: bob_gone_world_eq session_defs)

section \<open>The end of a connection\<close>

text \<open>
  When \<^verbatim>\<open>recv\<close> returns \<^verbatim>\<open>None\<close>, \<^verbatim>\<open>run\<close> leaves its loop and does what follows it:
  \<^verbatim>\<open>disconnect\<close> for a client with a lobby, and then the socket is closed.
\<close>

lemma run_end_of_stream:
  "recv_call lib r = (r', Inr None) \<Longrightarrow> run lib c r w = run_exit c w"
  by (simp add: run_def)

text \<open>
  Claim C1. A stream that ends should lead to \<^verbatim>\<open>disconnect\<close> and then to the socket
  being closed, also when it ends by a frame that cannot be decoded. Evaluated for
  Bob, who is in lobby 0: a line that is no JSON, and a line that is no UTF-8, each
  end \<^verbatim>\<open>run\<close> by the exception, in the state as it was: Bob's entry is still active,
  nothing was sent to Alice, the socket is not closed. The last equation is the end
  of stream itself, where \<^verbatim>\<open>run\<close> does disconnect and then close.
\<close>

theorem decode_fault_skips_cleanup:
  "run eval_lib 1 \<lparr>buffer = [], client_socket = [Data (''not json'' @ [CHR 0x0A])]\<rparr> pair_world
     = (pair_world, Some JSONDecodeError) \<and>
   run eval_lib 1 \<lparr>buffer = [], client_socket = [Data [CHR 0xFF, CHR 0x0A]]\<rparr> pair_world
     = (pair_world, Some UnicodeDecodeError) \<and>
   lobby (threads pair_world 1) = Some 0 \<and>
   clients (heap pair_world 0) = [(''Alice'', Some 0), (''Bob'', Some 1)] \<and>
   run eval_lib 1 \<lparr>buffer = [], client_socket = []\<rparr> pair_world = (bob_gone_world, None)"
  by (simp add: run_def recv_call_def partition_line_def delimiter_def
      eval_lib_def ascii_decode_def eval_loads_def join_without_code_text_def quoted_def
      pair_world_eq bob_gone_world_eq session_defs)

section \<open>When a lobby is full\<close>

text \<open>
  Claim C3, as the specification states it, fails: with Alice active and Bob a
  tombstone in lobby ABCD, the join of Carol, a third name, raises
  \<^verbatim>\<open>LobbyFullException\<close> although the lobby has a tombstoned slot.
\<close>

theorem join_full_counterexample:
  "snd (Lobby_join 2 (JStr ''ABCD'') (JStr ''v1'') carol_world) = Inl LobbyFullException \<and>
   \<not> list_all (\<lambda>e. snd e \<noteq> None) (clients (heap carol_world 0)) \<and>
   lobbies carol_world ''ABCD'' = Some 0 \<and>
   clients (heap carol_world 0) = [(''Alice'', Some 0), (''Bob'', None)] \<and>
   handle_message eval_lib 2 (join_frame ''ABCD'') carol_world
     = (carol_world\<lparr>trace := trace carol_world @ [Sent 2 (error_frame ''lobby_full'')]\<rparr>, None)"
  by (simp add: carol_world_eq bob_gone_world_eq session_defs)

text \<open>
  Claim C3, amended. \<^verbatim>\<open>Lobby.join\<close> raises \<^verbatim>\<open>LobbyFullException\<close> exactly when the code
  is registered, the versions agree, the name of the client is no key of the lobby's
  \<^verbatim>\<open>clients\<close>, neither of an active entry nor of a tombstone, and \<^verbatim>\<open>clients\<close> has
  \<^verbatim>\<open>max_players\<close> entries or more, tombstones counted.
\<close>

theorem join_full_iff:
  "snd (Lobby_join c cd v w) = Inl LobbyFullException \<longleftrightarrow>
     (\<exists>s l. cd = JStr s \<and> lobbies w s = Some l \<and> py_eq (version (heap w l)) v \<and>
        map_of (clients (heap w l)) (name (threads w c)) = None \<and>
        max_players (heap w l) \<le> length (clients (heap w l)))"
proof (cases "find_lobby (lobbies w) cd")
  case (Inl e)
  then have "e \<noteq> LobbyFullException \<and> (\<forall>s. cd = JStr s \<longrightarrow> lobbies w s = None)"
    by (cases "(lobbies w, cd)" rule: find_lobby.cases) (auto split: option.splits)
  with Inl show ?thesis by (auto simp: Lobby_join_def)
next
  case (Inr l)
  then obtain s where s: "cd = JStr s" "lobbies w s = Some l"
    by (cases "(lobbies w, cd)" rule: find_lobby.cases) (auto split: option.splits)
  show ?thesis
    using Inr s Lobby_connect_not_full[of l c w]
    by (auto simp: Lobby_join_def split: option.splits prod.splits)
qed

theorem join_full_iff_witness:
  "snd (Lobby_join 2 (JStr ''ABCD'') (JStr ''v1'') carol_world) = Inl LobbyFullException \<and>
   map_of (clients (heap carol_world 0)) ''Carol'' = None \<and>
   max_players (heap carol_world 0) = 2 \<and> length (clients (heap carol_world 0)) = 2"
proof -
  have "\<exists>s l. JStr ''ABCD'' = JStr s \<and> lobbies carol_world s = Some l \<and>
      py_eq (version (heap carol_world l)) (JStr ''v1'') \<and>
      map_of (clients (heap carol_world l)) (name (threads carol_world 2)) = None \<and>
      max_players (heap carol_world l) \<le> length (clients (heap carol_world l))"
    by (intro exI[of _ "''ABCD''"] exI[of _ 0]) (simp add: carol_world_eq bob_gone_world_eq)
  then have "snd (Lobby_join 2 (JStr ''ABCD'') (JStr ''v1'') carol_world) = Inl LobbyFullException"
    by (simp only: join_full_iff)
  then show ?thesis by (simp add: carol_world_eq bob_gone_world_eq)
qed

section \<open>The relay of a turn\<close>

lemma open_entry_trace [simp]: "open_entry (w\<lparr>trace := t\<rparr>) = open_entry w"
proof
  fix e show "open_entry (w\<lparr>trace := t\<rparr>) e = open_entry w e"
    by (cases "(w, e)" rule: open_entry.cases) simp_all
qed

lemma message_loop_all:
  assumes "list_all (open_entry w) cs"
  shows "message_loop cs d ex w =
     (w\<lparr>trace := trace w @ map (\<lambda>b. Sent b d) (filter (\<lambda>b. b \<notin> set ex) (List.map_filter snd cs))\<rparr>,
      None)"
  using assms
proof (induction cs d ex w rule: message_loop.induct)
  case (1 d exclude w)
  show ?case by (simp add: List.map_filter_simps)
next
  case (2 k rest d exclude w)
  then show ?case by simp
next
  case (3 k c rest d exclude w)
  show ?case
  proof (cases "c \<in> set exclude")
    case True
    with 3 show ?thesis by (simp add: List.map_filter_simps)
  next
    case False
    let ?w1 = "w\<lparr>trace := trace w @ [Sent c d]\<rparr>"
    from "3.prems" have op: "\<not> sock_closed (threads w c)" by simp
    then have s: "send_json c d w = (?w1, None)" by (rule send_json_open)
    from "3.prems" have "list_all (open_entry ?w1) rest" by simp
    from "3.IH"(2)[OF False s[symmetric] refl this] False s
    show ?thesis by (simp add: List.map_filter_simps)
  qed
qed

lemma map_of_dict_set:
  "map_of (dict_set k v kvs) k' = (if k' = k then Some v else map_of kvs k')"
  by (induction kvs) auto

text \<open>
  Claim C7. A \<^verbatim>\<open>turn\<close> frame from a client that has a lobby, all of whose entries are
  active members with open sockets: the handler changes nothing but the trace, to
  which it adds the frame with \<^verbatim>\<open>name\<close> set to the sender's name, once for every entry
  that is not the sender, in the order of the entries, and nothing for the sender. In
  the frame sent, \<^verbatim>\<open>name\<close> is the sender's name and every other field is as it was
  received.
\<close>

theorem turn_relayed:
  assumes "map_of d ''action'' = Some (JStr ''turn'')"
    and "lobby (threads w a) = Some l"
    and "list_all (open_entry w) (clients (heap w l))"
  shows "handle_message lib a (JObj d) w =
      (w\<lparr>trace := trace w @
           map (\<lambda>b. Sent b (JObj (dict_set ''name'' (JStr (name (threads w a))) d)))
             (filter (\<lambda>b. b \<noteq> a) (List.map_filter snd (clients (heap w l))))\<rparr>,
       None) \<and>
    map_of (dict_set ''name'' (JStr (name (threads w a))) d) ''name''
      = Some (JStr (name (threads w a))) \<and>
    (\<forall>k. k \<noteq> ''name'' \<longrightarrow>
       map_of (dict_set ''name'' (JStr (name (threads w a))) d) k = map_of d k)"
proof -
  have "handle_message lib a (JObj d) w = action_turn a d w"
    using assms(1) by simp
  also have "\<dots> = message_loop (clients (heap w l))
      (JObj (dict_set ''name'' (JStr (name (threads w a))) d)) [a] w"
    using assms(2) by (simp add: action_turn_def Lobby_message_def get_name_def)
  also note message_loop_all[OF assms(3)]
  finally show ?thesis by (simp add: map_of_dict_set)
qed

theorem turn_relayed_witness:
  "handle_message eval_lib 0 (JObj [(''action'', JStr ''turn''), (''move'', JInt 5)]) pair_world =
     (pair_world\<lparr>trace := trace pair_world @
        [Sent 1 (JObj [(''action'', JStr ''turn''), (''move'', JInt 5), (''name'', JStr ''Alice'')])]\<rparr>,
      None)"
proof -
  have h: "map_of [(''action'', JStr ''turn''), (''move'', JInt 5)] ''action'' = Some (JStr ''turn'')"
    "lobby (threads pair_world 0) = Some 0"
    "list_all (open_entry pair_world) (clients (heap pair_world 0))"
    by (simp_all add: pair_world_eq)
  have "name (threads pair_world 0) = ''Alice''"
    "clients (heap pair_world 0) = [(''Alice'', Some 0), (''Bob'', Some 1)]"
    by (simp_all add: pair_world_eq)
  with turn_relayed[OF h, of eval_lib] show ?thesis
    by (simp add: List.map_filter_simps)
qed

section \<open>A join that fails\<close>

lemma find_lobby_unregistered:
  "key_of cd \<noteq> None \<Longrightarrow> (\<And>s. cd = JStr s \<Longrightarrow> reg s = None) \<Longrightarrow>
     find_lobby reg cd = Inl LobbyDoesntExistException"
  by (cases cd) simp_all

text \<open>
  Claim C4. A \<^verbatim>\<open>join\<close> frame with a code, from a client whose socket is open (as it
  is while its handler runs), in each of the four cases in which the request fails:
  the code is a value that can be looked up and is not registered; or it is
  registered and the lobby's version is not the client's; or the versions agree and
  the client's name has an active entry in the lobby; or the versions agree, the
  name has no entry, and the lobby has \<^verbatim>\<open>max_players\<close> entries or more. Then
  \<^verbatim>\<open>Lobby.join\<close> raises the exception of that case and changes nothing, and the handler
  changes nothing but the trace, to which it adds one frame, written to the
  requester, with the type of that case; for another version the frame carries the
  version of the lobby.
\<close>

theorem join_error_atomic:
  assumes "map_of d ''action'' = Some (JStr ''join'')"
    and "map_of d ''code'' = Some cd"
    and "\<not> sock_closed (threads w c)"
  shows
    "(key_of cd \<noteq> None \<and> (\<forall>s. cd = JStr s \<longrightarrow> lobbies w s = None) \<longrightarrow>
        Lobby_join c cd (game_version (threads w c)) w = (w, Inl LobbyDoesntExistException) \<and>
        handle_message lib c (JObj d) w
          = (w\<lparr>trace := trace w @ [Sent c (error_frame ''lobby_doesnt_exist'')]\<rparr>, None)) \<and>
     (\<forall>s l. cd = JStr s \<and> lobbies w s = Some l \<longrightarrow>
        (\<not> py_eq (version (heap w l)) (game_version (threads w c)) \<longrightarrow>
           Lobby_join c cd (game_version (threads w c)) w
             = (w, Inl (MismatchedVersionException (version (heap w l)))) \<and>
           handle_message lib c (JObj d) w
             = (w\<lparr>trace := trace w @
                  [Sent c (JObj [(''action'', JStr ''error''),
                                 (''type'', JStr ''mismatched_version''),
                                 (''message'', JStr (py_str lib (version (heap w l))))])]\<rparr>,
                None)) \<and>
        (py_eq (version (heap w l)) (game_version (threads w c)) \<and>
         (\<exists>c'. map_of (clients (heap w l)) (name (threads w c)) = Some (Some c')) \<longrightarrow>
           Lobby_join c cd (game_version (threads w c)) w = (w, Inl AlreadyConnectedException) \<and>
           handle_message lib c (JObj d) w
             = (w\<lparr>trace := trace w @ [Sent c (error_frame ''already_connected'')]\<rparr>, None)) \<and>
        (py_eq (version (heap w l)) (game_version (threads w c)) \<and>
         map_of (clients (heap w l)) (name (threads w c)) = None \<and>
         max_players (heap w l) \<le> length (clients (heap w l)) \<longrightarrow>
           Lobby_join c cd (game_version (threads w c)) w = (w, Inl LobbyFullException) \<and>
           handle_message lib c (JObj d) w
             = (w\<lparr>trace := trace w @ [Sent c (error_frame ''lobby_full'')]\<rparr>, None)))"
proof -
  let ?v = "game_version (threads w c)"
  have hm: "handle_message lib c (JObj d) w =
      (case Lobby_join c cd ?v w of
         (w1, Inr l) \<Rightarrow> (set_lobby c l w1, None)
       | (w1, Inl LobbyDoesntExistException) \<Rightarrow>
           send_json c (error_frame ''lobby_doesnt_exist'') w1
       | (w1, Inl (MismatchedVersionException v)) \<Rightarrow>
           send_json c
             (JObj [(''action'', JStr ''error''), (''type'', JStr ''mismatched_version''),
                    (''message'', JStr (py_str lib v))])
             w1
       | (w1, Inl AlreadyConnectedException) \<Rightarrow>
           send_json c (error_frame ''already_connected'') w1
       | (w1, Inl LobbyFullException) \<Rightarrow>
           send_json c (error_frame ''lobby_full'') w1
       | (w1, Inl e) \<Rightarrow> (w1, Some e))"
    using assms(1,2) by (simp add: action_join_def)
  have none: "Lobby_join c cd ?v w = (w, Inl LobbyDoesntExistException) \<and>
        handle_message lib c (JObj d) w
          = (w\<lparr>trace := trace w @ [Sent c (error_frame ''lobby_doesnt_exist'')]\<rparr>, None)"
    if "key_of cd \<noteq> None" and "\<forall>s. cd = JStr s \<longrightarrow> lobbies w s = None"
  proof -
    from that have "find_lobby (lobbies w) cd = Inl LobbyDoesntExistException"
      by (intro find_lobby_unregistered) auto
    then have "Lobby_join c cd ?v w = (w, Inl LobbyDoesntExistException)"
      by (simp add: Lobby_join_def)
    then show ?thesis using assms(3) unfolding hm by (simp add: send_json_open)
  qed
  have reg: "find_lobby (lobbies w) cd = Inr l" if "cd = JStr s" "lobbies w s = Some l" for s l
    using that by simp
  have mism: "Lobby_join c cd ?v w = (w, Inl (MismatchedVersionException (version (heap w l)))) \<and>
           handle_message lib c (JObj d) w
             = (w\<lparr>trace := trace w @
                  [Sent c (JObj [(''action'', JStr ''error''),
                                 (''type'', JStr ''mismatched_version''),
                                 (''message'', JStr (py_str lib (version (heap w l))))])]\<rparr>,
                None)"
    if "cd = JStr s" "lobbies w s = Some l" "\<not> py_eq (version (heap w l)) ?v" for s l
  proof -
    from reg[OF that(1,2)] that(3)
    have "Lobby_join c cd ?v w = (w, Inl (MismatchedVersionException (version (heap w l))))"
      by (simp add: Lobby_join_def)
    then show ?thesis using assms(3) unfolding hm by (simp add: send_json_open)
  qed
  have conn: "Lobby_join c cd ?v w = (w, Inl AlreadyConnectedException) \<and>
           handle_message lib c (JObj d) w
             = (w\<lparr>trace := trace w @ [Sent c (error_frame ''already_connected'')]\<rparr>, None)"
    if "cd = JStr s" "lobbies w s = Some l" "py_eq (version (heap w l)) ?v"
      "map_of (clients (heap w l)) (name (threads w c)) = Some (Some c')" for s l c'
  proof -
    from reg[OF that(1,2)] that(3,4)
    have "Lobby_join c cd ?v w = (w, Inl AlreadyConnectedException)"
      by (simp add: Lobby_join_def)
    then show ?thesis using assms(3) unfolding hm by (simp add: send_json_open)
  qed
  have full: "Lobby_join c cd ?v w = (w, Inl LobbyFullException) \<and>
           handle_message lib c (JObj d) w
             = (w\<lparr>trace := trace w @ [Sent c (error_frame ''lobby_full'')]\<rparr>, None)"
    if "cd = JStr s" "lobbies w s = Some l" "py_eq (version (heap w l)) ?v"
      "map_of (clients (heap w l)) (name (threads w c)) = None"
      "max_players (heap w l) \<le> length (clients (heap w l))" for s l
  proof -
    from reg[OF that(1,2)] that(3,4,5)
    have "Lobby_join c cd ?v w = (w, Inl LobbyFullException)"
      by (simp add: Lobby_join_def)
    then show ?thesis using assms(3) unfolding hm by (simp add: send_json_open)
  qed
  show ?thesis
  proof (intro conjI allI impI)
    assume "key_of cd \<noteq> None \<and> (\<forall>s. cd = JStr s \<longrightarrow> lobbies w s = None)"
    then show "Lobby_join c cd ?v w = (w, Inl LobbyDoesntExistException)"
      and "handle_message lib c (JObj d) w
          = (w\<lparr>trace := trace w @ [Sent c (error_frame ''lobby_doesnt_exist'')]\<rparr>, None)"
      using none by blast+
  next
    fix s l assume "cd = JStr s \<and> lobbies w s = Some l"
      and "\<not> py_eq (version (heap w l)) ?v"
    then show "Lobby_join c cd ?v w = (w, Inl (MismatchedVersionException (version (heap w l))))"
      and "handle_message lib c (JObj d) w
             = (w\<lparr>trace := trace w @
                  [Sent c (JObj [(''action'', JStr ''error''),
                                 (''type'', JStr ''mismatched_version''),
                                 (''message'', JStr (py_str lib (version (heap w l))))])]\<rparr>,
                None)"
      using mism by blast+
  next
    fix s l assume "cd = JStr s \<and> lobbies w s = Some l"
      and "py_eq (version (heap w l)) ?v \<and>
         (\<exists>c'. map_of (clients (heap w l)) (name (threads w c)) = Some (Some c'))"
    then show "Lobby_join c cd ?v w = (w, Inl AlreadyConnectedException)"
      and "handle_message lib c (JObj d) w
             = (w\<lparr>trace := trace w @ [Sent c (error_frame ''already_connected'')]\<rparr>, None)"
      using conn by blast+
  next
    fix s l assume "cd = JStr s \<and> lobbies w s = Some l"
      and "py_eq (version (heap w l)) ?v \<and>
         map_of (clients (heap w l)) (name (threads w c)) = None \<and>
         max_players (heap w l) \<le> length (clients (heap w l))"
    then show "Lobby_join c cd ?v w = (w, Inl LobbyFullException)"
      and "handle_message lib c (JObj d) w
             = (w\<lparr>trace := trace w @ [Sent c (error_frame ''lobby_full'')]\<rparr>, None)"
      using full by blast+
  qed
qed

theorem join_error_atomic_witness:
  "handle_message eval_lib 1 (join_frame ''ZZZZ'') alice_world
     = (alice_world\<lparr>trace := trace alice_world @
          [Sent 1 (error_frame ''lobby_doesnt_exist'')]\<rparr>, None) \<and>
   handle_message eval_lib 2 (join_frame ''ABCD'') v2_world
     = (v2_world\<lparr>trace := trace v2_world @
          [Sent 2 (JObj [(''action'', JStr ''error''), (''type'', JStr ''mismatched_version''),
                         (''message'', JStr ''v1'')])]\<rparr>, None) \<and>
   handle_message eval_lib 0 (join_frame ''ABCD'') pair_world
     = (pair_world\<lparr>trace := trace pair_world @
          [Sent 0 (error_frame ''already_connected'')]\<rparr>, None) \<and>
   handle_message eval_lib 2 (join_frame ''ABCD'') carol_world
     = (carol_world\<lparr>trace := trace carol_world @ [Sent 2 (error_frame ''lobby_full'')]\<rparr>, None)"
proof -
  have a: "map_of [(''action'', JStr ''join''), (''code'', JStr cd)] ''action''
        = Some (JStr ''join'')"
    "map_of [(''action'', JStr ''join''), (''code'', JStr cd)] ''code'' = Some (JStr cd)" for cd
    by simp_all
  have o: "\<not> sock_closed (threads alice_world 1)" "\<not> sock_closed (threads v2_world 2)"
    "\<not> sock_closed (threads pair_world 0)" "\<not> sock_closed (threads carol_world 2)"
    by (simp_all add: alice_world_eq v2_world_eq pair_world_eq carol_world_eq bob_gone_world_eq)
  have 1: "handle_message eval_lib 1 (join_frame ''ZZZZ'') alice_world
     = (alice_world\<lparr>trace := trace alice_world @
          [Sent 1 (error_frame ''lobby_doesnt_exist'')]\<rparr>, None)"
    using join_error_atomic [OF a o(1), of "''ZZZZ''" eval_lib]
    by (simp add: join_frame_def alice_world_eq)
  have 2: "handle_message eval_lib 2 (join_frame ''ABCD'') v2_world
     = (v2_world\<lparr>trace := trace v2_world @
          [Sent 2 (JObj [(''action'', JStr ''error''), (''type'', JStr ''mismatched_version''),
                         (''message'', JStr ''v1'')])]\<rparr>, None)"
    using join_error_atomic [OF a o(2), of "''ABCD''" eval_lib]
    by (simp add: join_frame_def v2_world_eq pair_world_eq)
  have 3: "handle_message eval_lib 0 (join_frame ''ABCD'') pair_world
     = (pair_world\<lparr>trace := trace pair_world @
          [Sent 0 (error_frame ''already_connected'')]\<rparr>, None)"
    using join_error_atomic [OF a o(3), of "''ABCD''" eval_lib]
    by (simp add: join_frame_def pair_world_eq)
  have 4: "handle_message eval_lib 2 (join_frame ''ABCD'') carol_world
     = (carol_world\<lparr>trace := trace carol_world @ [Sent 2 (error_frame ''lobby_full'')]\<rparr>, None)"
    using join_error_atomic [OF a o(4), of "''ABCD''" eval_lib]
    by (simp add: join_frame_def carol_world_eq bob_gone_world_eq)
  from 1 2 3 4 show ?thesis by (intro conjI)
qed

section \<open>Frames that lack a field\<close>

lemma run_handler_raises:
  assumes "recv_call lib r = (r', Inr (Some m))"
    and "loads lib m = Some d"
    and "handle_message lib c d w = (w', Some e)"
  shows "run lib c r w = (w', Some e)"
  using assms by (simp add: run_def)

text \<open>
  Claim C10. When the line that \<^verbatim>\<open>recv\<close> returns decodes to a dict that is a \<^verbatim>\<open>join\<close>
  without \<^verbatim>\<open>code\<close>, or an \<^verbatim>\<open>identify\<close> without \<^verbatim>\<open>name\<close> or without \<^verbatim>\<open>game_version\<close>, the
  handler raises \<^verbatim>\<open>KeyError\<close> and \<^verbatim>\<open>run\<close> ends with it. The state is as before, but
  for the name, which an \<^verbatim>\<open>identify\<close> without \<^verbatim>\<open>game_version\<close> has set already: no
  frame is written, no entry of a lobby becomes a tombstone, no lobby is removed, and
  no socket is closed.
\<close>

theorem missing_field_raises:
  assumes "recv_call lib r = (r', Inr (Some m))"
    and "loads lib m = Some (JObj d)"
    and "map_of d ''action'' = Some (JStr ''join'') \<and> map_of d ''code'' = None \<or>
         map_of d ''action'' = Some (JStr ''identify'') \<and>
           (map_of d ''name'' = None \<or> map_of d ''game_version'' = None)"
  shows "\<exists>w'. handle_message lib c (JObj d) w = (w', Some KeyError) \<and>
           run lib c r w = (w', Some KeyError) \<and>
           (w' = w \<or> (\<exists>n. map_of d ''name'' = Some n \<and> w' = set_name lib c n w)) \<and>
           trace w' = trace w \<and> lobbies w' = lobbies w \<and> heap w' = heap w \<and>
           (\<forall>c'. sock_closed (threads w' c') = sock_closed (threads w c') \<and>
                 lobby (threads w' c') = lobby (threads w c'))"
proof -
  have "\<exists>w'. handle_message lib c (JObj d) w = (w', Some KeyError) \<and>
           (w' = w \<or> (\<exists>n. map_of d ''name'' = Some n \<and> w' = set_name lib c n w))"
    using assms(3)
  proof (elim disjE conjE)
    assume "map_of d ''action'' = Some (JStr ''join'')" "map_of d ''code'' = None"
    then show ?thesis by (simp add: action_join_def)
  next
    assume "map_of d ''action'' = Some (JStr ''identify'')" "map_of d ''name'' = None"
    then show ?thesis by (simp add: action_identify_def)
  next
    assume "map_of d ''action'' = Some (JStr ''identify'')" "map_of d ''game_version'' = None"
    then show ?thesis by (cases "map_of d ''name''") (simp_all add: action_identify_def)
  qed
  then obtain w' where w': "handle_message lib c (JObj d) w = (w', Some KeyError)"
    "w' = w \<or> (\<exists>n. map_of d ''name'' = Some n \<and> w' = set_name lib c n w)" by blast
  from run_handler_raises[OF assms(1,2) w'(1)] have "run lib c r w = (w', Some KeyError)" .
  moreover from w'(2) have "trace w' = trace w \<and> lobbies w' = lobbies w \<and> heap w' = heap w \<and>
           (\<forall>c'. sock_closed (threads w' c') = sock_closed (threads w c') \<and>
                 lobby (threads w' c') = lobby (threads w c'))"
    by (auto simp: set_name_def split: if_splits)
  ultimately show ?thesis using w' by blast
qed

theorem missing_field_raises_witness:
  "name (threads alice_world 1) = ''None'' \<and>
   run eval_lib 1
     \<lparr>buffer = [], client_socket = [Data (join_without_code_text @ [CHR 0x0A])]\<rparr> alice_world
   = (alice_world, Some KeyError)"
proof -
  have r: "recv_call eval_lib
      \<lparr>buffer = [], client_socket = [Data (join_without_code_text @ [CHR 0x0A])]\<rparr>
    = (\<lparr>buffer = [], client_socket = []\<rparr>, Inr (Some join_without_code_text))"
    by (simp add: recv_call_def partition_line_def delimiter_def eval_lib_def ascii_decode_def
        join_without_code_text_def quoted_def)
  have l: "loads eval_lib join_without_code_text = Some (JObj [(''action'', JStr ''join'')])"
    by (simp add: eval_lib_def eval_loads_def)
  have h: "map_of [(''action'', JStr ''join'')] ''action'' = Some (JStr ''join'') \<and>
      map_of [(''action'', JStr ''join'')] ''code'' = None \<or>
    map_of [(''action'', JStr ''join'')] ''action'' = Some (JStr ''identify'') \<and>
      (map_of [(''action'', JStr ''join'')] ''name'' = None \<or>
       map_of [(''action'', JStr ''join'')] ''game_version'' = None)"
    by simp
  have n: "name (threads alice_world 1) = ''None''" by (simp add: alice_world_eq)
  from missing_field_raises [OF r l h, of 1 alice_world] n show ?thesis by auto
qed

section \<open>What the operations of the registry leave\<close>

lemma set_client_fields [simp]:
  "threads (set_client l k v w) = threads w"
  "lobbies (set_client l k v w) = lobbies w"
  "nlobbies (set_client l k v w) = nlobbies w"
  "code (heap (set_client l k v w) l') = code (heap w l')"
  "l' \<noteq> l \<Longrightarrow> heap (set_client l k v w) l' = heap w l'"
  "clients (heap (set_client l k v w) l) = dict_set k v (clients (heap w l))"
  by (simp_all add: set_client_def)

lemma set_client_map_of:
  "map_of (clients (heap (set_client l k v w) l')) k' =
     (if l' = l \<and> k' = k then Some v else map_of (clients (heap w l')) k')"
  by (simp add: set_client_def map_of_dict_set)

lemma dict_set_has: "(k, v) \<in> set (dict_set k v kvs)"
  by (induction kvs) auto

lemma Lobby_message_sends: "Lobby_message l d ex w = (w', r) \<Longrightarrow> sends_only w w'"
  by (auto simp: Lobby_message_def dest: message_loop_sends)

lemma Lobby_connect_sends:
  "Lobby_connect l c w = (w', r) \<Longrightarrow>
     sends_only (set_client l (name (threads w c)) (Some c) w) w'"
  by (auto simp: Lobby_connect_def dest: Lobby_message_sends)

lemma choice_alphabet: "choice alphabet r \<in> set alphabet"
proof -
  have "length alphabet = 26" by (simp add: alphabet_def)
  then have "r mod length alphabet < length alphabet" by simp
  then show ?thesis unfolding choice_def by (rule nth_mem)
qed

lemma generate_code_spec:
  "generate_code reg draws = Some (cd, rest) \<Longrightarrow>
     length cd = 4 \<and> set cd \<subseteq> set alphabet \<and> reg cd = None"
proof (induction reg draws rule: generate_code.induct)
  case (1 reg r1 r2 r3 r4 rs)
  then show ?case
    by (auto simp: Let_def choice_alphabet split: if_splits)
qed simp_all

text \<open>The loop returns with the first four draws that give a code not registered.\<close>

lemma generate_code_returns:
  "reg (map (choice alphabet) [r1, r2, r3, r4]) = None \<Longrightarrow>
     generate_code reg (r1 # r2 # r3 # r4 # rest) = Some (map (choice alphabet) [r1, r2, r3, r4], rest)"
  by simp

lemma generate_code_retries:
  "reg (map (choice alphabet) [r1, r2, r3, r4]) \<noteq> None \<Longrightarrow>
     generate_code reg (r1 # r2 # r3 # r4 # rest) = generate_code reg rest"
  by auto

text \<open>What \<^verbatim>\<open>Lobby.create\<close> leaves, up to the frames written.\<close>

lemma Lobby_create_cases:
  assumes "Lobby_create c v w = (w', r)"
  shows "(generate_code (lobbies w) (rng w) = None \<and> w' = w \<and> r = Inl OutOfDraws) \<or>
    (\<exists>cd rest. generate_code (lobbies w) (rng w) = Some (cd, rest) \<and>
       (r = Inr (nlobbies w) \<or> (\<exists>e. r = Inl e)) \<and>
       sends_only
         (set_client (nlobbies w) (name (threads w c)) (Some c)
            (w\<lparr>lobbies := (lobbies w)(cd \<mapsto> nlobbies w),
               heap := (heap w)(nlobbies w := Lobby_init cd v),
               nlobbies := Suc (nlobbies w), rng := rest\<rparr>))
         w')"
proof (cases "generate_code (lobbies w) (rng w)")
  case None
  with assms show ?thesis by (simp add: Lobby_create_def)
next
  case (Some p)
  obtain cd rest where p: "p = (cd, rest)" by (cases p)
  let ?w1 = "w\<lparr>lobbies := (lobbies w)(cd \<mapsto> nlobbies w),
                heap := (heap w)(nlobbies w := Lobby_init cd v),
                nlobbies := Suc (nlobbies w), rng := rest\<rparr>"
  obtain w2 r2 where c: "Lobby_connect (nlobbies w) c ?w1 = (w2, r2)"
    by (cases "Lobby_connect (nlobbies w) c ?w1")
  obtain w3 r3 where m: "Lobby_message (nlobbies w)
      (JObj [(''action'', JStr ''code''), (''code'', JStr cd)]) [] w2 = (w3, r3)"
    by (cases "Lobby_message (nlobbies w)
      (JObj [(''action'', JStr ''code''), (''code'', JStr cd)]) [] w2")
  from Lobby_connect_sends[OF c]
  have s: "sends_only (set_client (nlobbies w) (name (threads w c)) (Some c) ?w1) w2" by simp
  from sends_only_trans[OF s Lobby_message_sends[OF m]]
  have s3: "sends_only (set_client (nlobbies w) (name (threads w c)) (Some c) ?w1) w3" .
  have "(r = Inr (nlobbies w) \<or> (\<exists>e. r = Inl e)) \<and> (w' = w2 \<or> w' = w3)"
    using assms Some p c m by (auto simp: Lobby_create_def Let_def split: option.splits)
  with s s3 Some p show ?thesis by auto
qed

text \<open>What \<^verbatim>\<open>Lobby.join\<close> leaves, up to the frames written.\<close>

lemma Lobby_join_cases:
  assumes "Lobby_join c cd v w = (w', r)"
  shows "(w' = w \<and> (\<exists>e. r = Inl e)) \<or>
    (\<exists>s l. cd = JStr s \<and> lobbies w s = Some l \<and> (r = Inr l \<or> (\<exists>e. r = Inl e)) \<and>
       sends_only (set_client l (name (threads w c)) (Some c) w) w')"
proof (cases "find_lobby (lobbies w) cd")
  case (Inl e)
  with assms have "w' = w" "r = Inl e" by (simp_all add: Lobby_join_def)
  then show ?thesis by blast
next
  case (Inr l)
  then obtain s where s: "cd = JStr s" "lobbies w s = Some l"
    by (cases "(lobbies w, cd)" rule: find_lobby.cases) (auto split: option.splits)
  obtain w2 r2 where c: "Lobby_connect l c w = (w2, r2)" by (cases "Lobby_connect l c w")
  from assms Inr c have "(w' = w \<and> (\<exists>e. r = Inl e)) \<or>
      (w' = w2 \<and> (r = Inr l \<or> (\<exists>e. r = Inl e)))"
    by (auto simp: Lobby_join_def split: option.splits if_splits)
  with Lobby_connect_sends[OF c] s show ?thesis by auto
qed

text \<open>What \<^verbatim>\<open>Lobby.disconnect\<close> leaves, up to the frames written.\<close>

lemma Lobby_disconnect_cases:
  assumes "Lobby_disconnect l n w = (w', r)"
  shows "active (heap (set_client l n None w) l) \<and> sends_only (set_client l n None w) w' \<or>
     \<not> active (heap (set_client l n None w) l) \<and>
       lobbies w (code (heap w l)) = None \<and> w' = set_client l n None w \<or>
     \<not> active (heap (set_client l n None w) l) \<and>
       sends_only ((set_client l n None w)
         \<lparr>lobbies := (lobbies w)(code (heap w l) := None)\<rparr>) w'"
proof -
  let ?w1 = "set_client l n None w"
  have a: "active (heap ?w1 l) = (\<not> list_all (\<lambda>e. snd e = None) (clients (heap ?w1 l)))"
    by (simp add: active_def list_ex_iff list_all_iff)
  show ?thesis
  proof (cases "list_all (\<lambda>e. snd e = None) (clients (heap ?w1 l))")
    case False
    with assms have "notify_loop (clients (heap ?w1 l))
        (JObj [(''action'', JStr ''disconnect''), (''name'', JStr n)]) ?w1 = (w', r)"
      by (simp add: Lobby_disconnect_def Let_def)
    from notify_loop_sends[OF this] False a show ?thesis by auto
  next
    case True
    show ?thesis
    proof (cases "lobbies w (code (heap w l)) = None")
      case n: True
      with assms True have "w' = ?w1" by (simp add: Lobby_disconnect_def Let_def)
      with n True a show ?thesis by auto
    next
      case False
      let ?w2 = "?w1\<lparr>lobbies := (lobbies w)(code (heap w l) := None)\<rparr>"
      from False obtain y where "lobbies w (code (heap w l)) = Some y" by auto
      with assms True have "notify_loop (clients (heap ?w2 l))
          (JObj [(''action'', JStr ''disconnect''), (''name'', JStr n)]) ?w2 = (w', r)"
        by (simp add: Lobby_disconnect_def Let_def)
      from notify_loop_sends[OF this] True a show ?thesis by auto
    qed
  qed
qed

lemma Lobby_create_threads: "Lobby_create c v w = (w', r) \<Longrightarrow> threads w' = threads w"
  by (auto dest!: Lobby_create_cases sends_only_fields(4))

lemma Lobby_join_threads: "Lobby_join c cd v w = (w', r) \<Longrightarrow> threads w' = threads w"
  by (auto dest!: Lobby_join_cases sends_only_fields(4))

lemma Lobby_disconnect_threads: "Lobby_disconnect l n w = (w', r) \<Longrightarrow> threads w' = threads w"
  by (auto dest!: Lobby_disconnect_cases sends_only_fields(4))

section \<open>The lobby a connection refers to\<close>

lemma set_lobby_fields [simp]:
  "lobby (threads (set_lobby c l w) c') = (if c' = c then Some l else lobby (threads w c'))"
  "heap (set_lobby c l w) = heap w"
  "lobbies (set_lobby c l w) = lobbies w"
  "nlobbies (set_lobby c l w) = nlobbies w"
  by (simp_all add: set_lobby_def)

lemma set_name_lobby [simp]: "lobby (threads (set_name lib c n w) c') = lobby (threads w c')"
  by (simp add: set_name_def)

lemma set_game_version_lobby [simp]:
  "lobby (threads (set_game_version c v w) c') = lobby (threads w c')"
  by (simp add: set_game_version_def)

text \<open>
  A frame either leaves the lobby of every connection as it is, or it is a \<^verbatim>\<open>create\<close>
  or a \<^verbatim>\<open>join\<close> that succeeds and ends with the assignment to \<^verbatim>\<open>self.lobby\<close>.
\<close>

lemma handle_message_lobby:
  assumes "handle_message lib c d w = (w', r)"
  shows "(\<forall>c'. lobby (threads w' c') = lobby (threads w c')) \<or>
    (\<exists>fs w1 l. d = JObj fs \<and> w' = set_lobby c l w1 \<and> threads w1 = threads w \<and> r = None \<and>
       (map_of fs ''action'' = Some (JStr ''create'') \<and>
          Lobby_create c (game_version (threads w c)) w = (w1, Inr l) \<or>
        map_of fs ''action'' = Some (JStr ''join'') \<and>
          (\<exists>cd. map_of fs ''code'' = Some cd \<and>
             Lobby_join c cd (game_version (threads w c)) w = (w1, Inr l))))"
proof -
  let ?same = "\<forall>c'. lobby (threads w' c') = lobby (threads w c')"
  have quiet: "?same" if "sends_only w w'"
    using sends_only_fields(4)[OF that] by simp
  have snd: "?same" if "send_json c fr w = (w', r)" for fr
    using quiet send_json_sends[OF that] by blast
  show ?thesis
  proof (cases d)
    case (JObj fs)
    show ?thesis
    proof (cases "map_of fs ''action''")
      case None
      with assms JObj snd show ?thesis by auto
    next
      case (Some a)
      consider (identify) "a = JStr ''identify''" | (create) "a = JStr ''create''"
        | (join) "a = JStr ''join''" | (turn) "a = JStr ''turn''"
        | (unknown) "a \<noteq> JStr ''identify''" "a \<noteq> JStr ''create''" "a \<noteq> JStr ''join''"
            "a \<noteq> JStr ''turn''"
        by blast
      then show ?thesis
      proof cases
        case identify
        with assms JObj Some have ai: "action_identify lib c fs w = (w', r)" by simp
        show ?thesis
        proof (cases "map_of fs ''name''")
          case None
          with ai show ?thesis by (simp add: action_identify_def)
        next
          case n: (Some n)
          show ?thesis
          proof (cases "map_of fs ''game_version''")
            case None
            with ai n show ?thesis by (auto simp: action_identify_def Let_def)
          next
            case v: (Some v)
            with ai n obtain fr where
              "send_json c fr (set_game_version c v (set_name lib c n w)) = (w', r)"
              by (auto simp: action_identify_def Let_def)
            from sends_only_fields(4)[OF send_json_sends[OF this]]
            have "threads w' = threads (set_game_version c v (set_name lib c n w))" .
            then show ?thesis by simp
          qed
        qed
      next
        case create
        obtain w1 r1 where lc: "Lobby_create c (game_version (threads w c)) w = (w1, r1)"
          by (cases "Lobby_create c (game_version (threads w c)) w")
        from Lobby_create_threads[OF lc] have t: "threads w1 = threads w" .
        show ?thesis
        proof (cases r1)
          case (Inl e)
          with assms JObj Some create lc t show ?thesis by (simp add: action_create_def)
        next
          case (Inr l)
          with assms JObj Some create lc have "w' = set_lobby c l w1" "r = None"
            by (simp_all add: action_create_def)
          with JObj Some create lc Inr t show ?thesis by blast
        qed
      next
        case join
        with assms JObj Some have aj: "action_join lib c fs w = (w', r)" by simp
        show ?thesis
        proof (cases "map_of fs ''code''")
          case None
          with aj show ?thesis by (simp add: action_join_def)
        next
          case cd: (Some cd)
          obtain w1 r1 where lj: "Lobby_join c cd (game_version (threads w c)) w = (w1, r1)"
            by (cases "Lobby_join c cd (game_version (threads w c)) w")
          from Lobby_join_threads[OF lj] have t: "threads w1 = threads w" .
          show ?thesis
          proof (cases r1)
            case (Inl e)
            with aj cd lj have "w' = w1 \<or> (\<exists>fr. send_json c fr w1 = (w', r))"
              by (cases e) (auto simp: action_join_def)
            then have "threads w' = threads w1"
              using send_json_sends sends_only_fields(4) by blast
            with t show ?thesis by simp
          next
            case (Inr l)
            with aj cd lj have "w' = set_lobby c l w1" "r = None"
              by (auto simp: action_join_def)
            with JObj Some join cd lj Inr t show ?thesis by blast
          qed
        qed
      next
        case turn
        with assms JObj Some have at: "action_turn c fs w = (w', r)" by simp
        then have "(\<exists>fr. send_json c fr w = (w', r)) \<or>
            (\<exists>l fr. Lobby_message l fr [c] w = (w', r))"
          by (auto simp: action_turn_def split: if_splits option.splits)
        then have "sends_only w w'"
          using send_json_sends Lobby_message_sends by blast
        with quiet show ?thesis by simp
      next
        case unknown
        with assms JObj Some snd show ?thesis by auto
      qed
    qed
  next
    case (JArr xs)
    with assms have "w' = w \<or> send_json c (error_frame ''unknown_action'') w = (w', r)"
      by (auto split: if_splits)
    with snd show ?thesis by auto
  next
    case (JStr s)
    with assms have "w' = w \<or> send_json c (error_frame ''unknown_action'') w = (w', r)"
      by (auto split: if_splits)
    with snd show ?thesis by auto
  qed (use assms in auto)
qed

text \<open>
  Claim C8, as the specification states it, fails: Alice, who is in lobby 0, sends
  \<^verbatim>\<open>create\<close> again; the handler makes lobby 1 and sets \<^verbatim>\<open>self.lobby\<close> to it, while her
  entry in lobby 0 stays.
\<close>

theorem second_create_counterexample:
  "lobby (threads alice_world 0) = Some 0 \<and>
   lobby (threads (fst (handle_message eval_lib 0 create_frame alice_world)) 0) = Some 1 \<and>
   snd (handle_message eval_lib 0 create_frame alice_world) = None \<and>
   clients (heap (fst (handle_message eval_lib 0 create_frame alice_world)) 0)
     = [(''Alice'', Some 0)]"
  by (simp add: alice_world_eq session_defs)

text \<open>
  Claim C8, amended. A frame handled for a connection changes the lobby of no other
  connection, and never unsets the lobby of the connection itself. When the frame
  is a \<^verbatim>\<open>create\<close> for which \<^verbatim>\<open>Lobby.create\<close> returns, \<^verbatim>\<open>self.lobby\<close> becomes the lobby
  created, a new object that is registered and has the connection as its only
  member, and every other lobby is as it was. When it is a \<^verbatim>\<open>join\<close> for which
  \<^verbatim>\<open>Lobby.join\<close> returns, \<^verbatim>\<open>self.lobby\<close> becomes the lobby registered under the code,
  in which the connection now has the entry of its name, and every other entry of
  every lobby is as it was. Both hold whatever lobby the connection referred to
  before. And \<^verbatim>\<open>self.lobby\<close> changes in these two cases only.
\<close>

theorem lobby_changes_by_create_or_join:
  assumes "handle_message lib c d w = (w', r)"
  shows
    "(\<forall>c'. c' \<noteq> c \<longrightarrow> lobby (threads w' c') = lobby (threads w c')) \<and>
     (lobby (threads w c) \<noteq> None \<longrightarrow> lobby (threads w' c) \<noteq> None) \<and>
     (\<forall>fs w1 l. d = JObj fs \<and> map_of fs ''action'' = Some (JStr ''create'') \<and>
          Lobby_create c (game_version (threads w c)) w = (w1, Inr l) \<longrightarrow>
        r = None \<and> lobby (threads w' c) = Some l \<and> l = nlobbies w \<and>
        lobbies w' (code (heap w' l)) = Some l \<and>
        clients (heap w' l) = [(name (threads w c), Some c)] \<and>
        (\<forall>l0. l0 \<noteq> l \<longrightarrow> heap w' l0 = heap w l0)) \<and>
     (\<forall>fs cd w1 l. d = JObj fs \<and> map_of fs ''action'' = Some (JStr ''join'') \<and>
          map_of fs ''code'' = Some cd \<and>
          Lobby_join c cd (game_version (threads w c)) w = (w1, Inr l) \<longrightarrow>
        r = None \<and> lobby (threads w' c) = Some l \<and>
        (\<exists>s. cd = JStr s \<and> lobbies w s = Some l) \<and>
        map_of (clients (heap w' l)) (name (threads w c)) = Some (Some c) \<and>
        (\<forall>l0 k. l0 \<noteq> l \<or> k \<noteq> name (threads w c) \<longrightarrow>
           map_of (clients (heap w' l0)) k = map_of (clients (heap w l0)) k)) \<and>
     (lobby (threads w' c) \<noteq> lobby (threads w c) \<longrightarrow>
        (\<exists>fs. d = JObj fs \<and>
           (map_of fs ''action'' = Some (JStr ''create'') \<and>
              (\<exists>w1 l. Lobby_create c (game_version (threads w c)) w = (w1, Inr l)) \<or>
            map_of fs ''action'' = Some (JStr ''join'') \<and>
              (\<exists>cd w1 l. map_of fs ''code'' = Some cd \<and>
                 Lobby_join c cd (game_version (threads w c)) w = (w1, Inr l)))))"
proof -
  note hl = handle_message_lobby[OF assms]
  have others: "\<forall>c'. c' \<noteq> c \<longrightarrow> lobby (threads w' c') = lobby (threads w c')"
    using hl by auto
  have kept: "lobby (threads w c) \<noteq> None \<longrightarrow> lobby (threads w' c) \<noteq> None"
    using hl by auto
  have only: "lobby (threads w' c) \<noteq> lobby (threads w c) \<longrightarrow>
        (\<exists>fs. d = JObj fs \<and>
           (map_of fs ''action'' = Some (JStr ''create'') \<and>
              (\<exists>w1 l. Lobby_create c (game_version (threads w c)) w = (w1, Inr l)) \<or>
            map_of fs ''action'' = Some (JStr ''join'') \<and>
              (\<exists>cd w1 l. map_of fs ''code'' = Some cd \<and>
                 Lobby_join c cd (game_version (threads w c)) w = (w1, Inr l))))"
    using hl by blast
  have create: "\<forall>fs w1 l. d = JObj fs \<and> map_of fs ''action'' = Some (JStr ''create'') \<and>
          Lobby_create c (game_version (threads w c)) w = (w1, Inr l) \<longrightarrow>
        r = None \<and> lobby (threads w' c) = Some l \<and> l = nlobbies w \<and>
        lobbies w' (code (heap w' l)) = Some l \<and>
        clients (heap w' l) = [(name (threads w c), Some c)] \<and>
        (\<forall>l0. l0 \<noteq> l \<longrightarrow> heap w' l0 = heap w l0)"
  proof (intro allI impI, elim conjE)
    fix fs w1 l
    assume d: "d = JObj fs" and a: "map_of fs ''action'' = Some (JStr ''create'')"
      and lc: "Lobby_create c (game_version (threads w c)) w = (w1, Inr l)"
    from assms d a lc have w': "w' = set_lobby c l w1" "r = None"
      by (simp_all add: action_create_def)
    from Lobby_create_cases[OF lc] obtain cd rest where
      l: "l = nlobbies w" and
      s: "sends_only (set_client (nlobbies w) (name (threads w c)) (Some c)
            (w\<lparr>lobbies := (lobbies w)(cd \<mapsto> nlobbies w),
               heap := (heap w)(nlobbies w := Lobby_init cd (game_version (threads w c))),
               nlobbies := Suc (nlobbies w), rng := rest\<rparr>)) w1"
      by auto
    from sends_only_fields(1,2)[OF s] l
    have "lobbies w1 = (lobbies w)(cd \<mapsto> l)"
      "heap w1 l = \<lparr>code = cd, version = game_version (threads w c),
         clients = [(name (threads w c), Some c)], max_players = 2\<rparr>"
      "\<forall>l0. l0 \<noteq> l \<longrightarrow> heap w1 l0 = heap w l0"
      by (simp_all add: set_client_def Lobby_init_def)
    with w' l show "r = None \<and> lobby (threads w' c) = Some l \<and> l = nlobbies w \<and>
        lobbies w' (code (heap w' l)) = Some l \<and>
        clients (heap w' l) = [(name (threads w c), Some c)] \<and>
        (\<forall>l0. l0 \<noteq> l \<longrightarrow> heap w' l0 = heap w l0)"
      by simp
  qed
  have join: "\<forall>fs cd w1 l. d = JObj fs \<and> map_of fs ''action'' = Some (JStr ''join'') \<and>
          map_of fs ''code'' = Some cd \<and>
          Lobby_join c cd (game_version (threads w c)) w = (w1, Inr l) \<longrightarrow>
        r = None \<and> lobby (threads w' c) = Some l \<and>
        (\<exists>s. cd = JStr s \<and> lobbies w s = Some l) \<and>
        map_of (clients (heap w' l)) (name (threads w c)) = Some (Some c) \<and>
        (\<forall>l0 k. l0 \<noteq> l \<or> k \<noteq> name (threads w c) \<longrightarrow>
           map_of (clients (heap w' l0)) k = map_of (clients (heap w l0)) k)"
  proof (intro allI impI, elim conjE)
    fix fs cd w1 l
    assume d: "d = JObj fs" and a: "map_of fs ''action'' = Some (JStr ''join'')"
      and cd: "map_of fs ''code'' = Some cd"
      and lj: "Lobby_join c cd (game_version (threads w c)) w = (w1, Inr l)"
    from assms d a cd lj have w': "w' = set_lobby c l w1" "r = None"
      by (simp_all add: action_join_def)
    from Lobby_join_cases[OF lj] obtain s where
      s: "cd = JStr s" "lobbies w s = Some l"
      and so: "sends_only (set_client l (name (threads w c)) (Some c) w) w1"
      by auto
    from sends_only_fields(2)[OF so]
    have "map_of (clients (heap w1 l0)) k =
        (if l0 = l \<and> k = name (threads w c) then Some (Some c)
         else map_of (clients (heap w l0)) k)" for l0 k
      by (simp add: set_client_map_of)
    with w' s show "r = None \<and> lobby (threads w' c) = Some l \<and>
        (\<exists>s. cd = JStr s \<and> lobbies w s = Some l) \<and>
        map_of (clients (heap w' l)) (name (threads w c)) = Some (Some c) \<and>
        (\<forall>l0 k. l0 \<noteq> l \<or> k \<noteq> name (threads w c) \<longrightarrow>
           map_of (clients (heap w' l0)) k = map_of (clients (heap w l0)) k)"
      by auto
  qed
  from others kept create join only show ?thesis by (intro conjI)
qed

theorem lobby_changes_by_create_or_join_witness:
  "Lobby_create 0 (JStr ''v1'') alice_world
     = (fst (Lobby_create 0 (JStr ''v1'') alice_world), Inr 1) \<and>
   lobby (threads alice_world 0) = Some 0 \<and>
   lobby (threads two_lobby_world 0) = Some 1 \<and>
   lobbies two_lobby_world (code (heap two_lobby_world 1)) = Some 1 \<and>
   clients (heap two_lobby_world 1) = [(''Alice'', Some 0)] \<and>
   heap two_lobby_world 0 = heap alice_world 0 \<and>
   lobby (threads two_lobby_world 1) = lobby (threads alice_world 1)"
proof -
  let ?w1 = "fst (Lobby_create 0 (JStr ''v1'') alice_world)"
  have h: "handle_message eval_lib 0 create_frame alice_world
      = (two_lobby_world, snd (handle_message eval_lib 0 create_frame alice_world))"
    by (simp add: two_lobby_world_def)
  have lc: "Lobby_create 0 (game_version (threads alice_world 0)) alice_world = (?w1, Inr 1)"
    by (simp add: alice_world_eq session_defs)
  have e: "game_version (threads alice_world 0) = JStr ''v1''"
    "name (threads alice_world 0) = ''Alice''" "lobby (threads alice_world 0) = Some 0"
    "create_frame = JObj [(''action'', JStr ''create'')]"
    "map_of [(''action'', JStr ''create'')] ''action'' = Some (JStr ''create'')"
    by (simp_all add: alice_world_eq create_frame_def)
  note t = lobby_changes_by_create_or_join [OF h]
  note cr = t [THEN conjunct2, THEN conjunct2, THEN conjunct1, rule_format,
      of "[(''action'', JStr ''create'')]" ?w1 1]
  have p: "create_frame = JObj [(''action'', JStr ''create'')] \<and>
      map_of [(''action'', JStr ''create'')] ''action'' = Some (JStr ''create'') \<and>
      Lobby_create 0 (game_version (threads alice_world 0)) alice_world = (?w1, Inr 1)"
    using e lc by simp
  from cr [OF p] have a: "lobby (threads two_lobby_world 0) = Some 1"
    "lobbies two_lobby_world (code (heap two_lobby_world 1)) = Some 1"
    "clients (heap two_lobby_world 1) = [(name (threads alice_world 0), Some 0)]"
    "\<forall>l0. l0 \<noteq> 1 \<longrightarrow> heap two_lobby_world l0 = heap alice_world l0"
    by blast+
  from a(4) have "heap two_lobby_world 0 = heap alice_world 0" by simp
  moreover from t have "lobby (threads two_lobby_world 1) = lobby (threads alice_world 1)"
    by simp
  ultimately show ?thesis using lc e a(1,2,3) by simp
qed

section \<open>The registry\<close>

lemma sends_only_registry_ok: "sends_only w w' \<Longrightarrow> registry_ok w' = registry_ok w"
  by (auto simp: sends_only_def registry_ok_def)

lemma active_dict_set: "active (lb\<lparr>clients := dict_set k (Some c) (clients lb)\<rparr>)"
proof -
  have "(k, Some c) \<in> set (dict_set k (Some c) (clients lb))" by (rule dict_set_has)
  then have "\<exists>e \<in> set (dict_set k (Some c) (clients lb)). snd e \<noteq> None"
    by (intro bexI[of _ "(k, Some c)"]) simp_all
  then show ?thesis by (simp add: active_def list_ex_iff)
qed

lemma set_client_active:
  "active (heap w l') \<Longrightarrow> active (heap (set_client l k (Some c) w) l')"
  using active_dict_set[where lb = "heap w l" and k = k and c = c]
  by (cases "l' = l") (simp_all add: set_client_def)

lemma set_client_registry_ok:
  "registry_ok w \<Longrightarrow> registry_ok (set_client l k (Some c) w)"
  by (simp add: registry_ok_def set_client_active)

lemma Lobby_connect_registry_ok:
  assumes "Lobby_connect l c w = (w', r)" and "registry_ok w"
  shows "registry_ok w'"
  using Lobby_connect_sends[OF assms(1)] assms(2)
  by (simp add: sends_only_registry_ok set_client_registry_ok)

lemma Lobby_join_registry_ok:
  assumes "Lobby_join c cd v w = (w', r)" and "registry_ok w"
  shows "registry_ok w'"
  using Lobby_join_cases[OF assms(1)] assms(2)
  by (auto simp: sends_only_registry_ok set_client_registry_ok)

lemma Lobby_create_registry_ok:
  assumes "Lobby_create c v w = (w', r)" and "registry_ok w"
  shows "registry_ok w'"
proof -
  from Lobby_create_cases[OF assms(1)]
  consider "w' = w"
    | cd rest where "sends_only
             (set_client (nlobbies w) (name (threads w c)) (Some c)
                (w\<lparr>lobbies := (lobbies w)(cd \<mapsto> nlobbies w),
                   heap := (heap w)(nlobbies w := Lobby_init cd v),
                   nlobbies := Suc (nlobbies w), rng := rest\<rparr>))
             w'"
    by auto
  then show ?thesis
  proof cases
    case 1
    with assms(2) show ?thesis by simp
  next
    case 2
    let ?w1 = "w\<lparr>lobbies := (lobbies w)(cd \<mapsto> nlobbies w),
                   heap := (heap w)(nlobbies w := Lobby_init cd v),
                   nlobbies := Suc (nlobbies w), rng := rest\<rparr>"
    let ?w2 = "set_client (nlobbies w) (name (threads w c)) (Some c) ?w1"
    have "registry_ok ?w2"
      unfolding registry_ok_def
    proof (intro allI impI)
      fix s l assume "lobbies ?w2 s = Some l"
      then have reg: "((lobbies w)(cd \<mapsto> nlobbies w)) s = Some l" by simp
      show "l < nlobbies ?w2 \<and> code (heap ?w2 l) = s \<and> active (heap ?w2 l)"
      proof (cases "s = cd")
        case True
        with reg have l: "l = nlobbies w" by simp
        have "active (heap ?w2 (nlobbies w))"
          using active_dict_set[where lb = "heap ?w1 (nlobbies w)"
              and k = "name (threads w c)" and c = c]
          by (simp add: set_client_def)
        with l True show ?thesis by (simp add: Lobby_init_def)
      next
        case False
        with reg have "lobbies w s = Some l" by simp
        with assms(2) have "l < nlobbies w" "code (heap w l) = s" "active (heap w l)"
          by (auto simp: registry_ok_def)
        then show ?thesis by (simp add: set_client_def)
      qed
    qed
    with sends_only_registry_ok[OF 2] show ?thesis by simp
  qed
qed

lemma set_client_None_registry:
  assumes "registry_ok w" and "lobbies w s = Some l'"
    and "l' \<noteq> l \<or> active (heap (set_client l k None w) l)"
  shows "l' < nlobbies w \<and> code (heap (set_client l k None w) l') = s \<and>
     active (heap (set_client l k None w) l')"
  using assms by (cases "l' = l") (auto simp: registry_ok_def)

lemma Lobby_disconnect_registry_ok:
  assumes "Lobby_disconnect l n w = (w', r)" and "registry_ok w"
  shows "registry_ok w' \<and> (\<not> active (heap w' l) \<longrightarrow> (\<forall>s. lobbies w' s \<noteq> Some l))"
proof -
  let ?w1 = "set_client l n None w"
  have own: "code (heap w l) = s" if "lobbies w s = Some l" for s
    using that assms(2) by (simp add: registry_ok_def)
  from Lobby_disconnect_cases[OF assms(1)] show ?thesis
  proof (elim disjE conjE)
    assume act: "active (heap ?w1 l)" and s: "sends_only ?w1 w'"
    have "registry_ok ?w1"
      unfolding registry_ok_def
    proof (intro allI impI)
      fix s l' assume "lobbies ?w1 s = Some l'"
      then have r: "lobbies w s = Some l'" by simp
      from set_client_None_registry[OF assms(2) r, where l = l and k = n] act
      show "l' < nlobbies ?w1 \<and> code (heap ?w1 l') = s \<and> active (heap ?w1 l')"
        by simp
    qed
    moreover from sends_only_fields(2)[OF s] act have "active (heap w' l)" by simp
    ultimately show ?thesis using sends_only_registry_ok[OF s] by simp
  next
    assume nact: "\<not> active (heap ?w1 l)"
      and unreg: "lobbies w (code (heap w l)) = None" and w': "w' = ?w1"
    have nl: "lobbies w s \<noteq> Some l" for s using own[of s] unreg by auto
    have "registry_ok ?w1"
      unfolding registry_ok_def
    proof (intro allI impI)
      fix s l' assume "lobbies ?w1 s = Some l'"
      then have r: "lobbies w s = Some l'" by simp
      with nl have "l' \<noteq> l" by auto
      with set_client_None_registry[OF assms(2) r, where l = l and k = n]
      show "l' < nlobbies ?w1 \<and> code (heap ?w1 l') = s \<and> active (heap ?w1 l')"
        by simp
    qed
    with w' nl show ?thesis by simp
  next
    assume nact: "\<not> active (heap ?w1 l)"
      and s: "sends_only (?w1\<lparr>lobbies := (lobbies w)(code (heap w l) := None)\<rparr>) w'"
    let ?w2 = "?w1\<lparr>lobbies := (lobbies w)(code (heap w l) := None)\<rparr>"
    have nl: "lobbies ?w2 s \<noteq> Some l" for s using own[of s] by auto
    have "registry_ok ?w2"
      unfolding registry_ok_def
    proof (intro allI impI)
      fix s l' assume a: "lobbies ?w2 s = Some l'"
      then have r: "lobbies w s = Some l'" by (simp split: if_splits)
      from a nl have "l' \<noteq> l" by auto
      with set_client_None_registry[OF assms(2) r, where l = l and k = n]
      show "l' < nlobbies ?w2 \<and> code (heap ?w2 l') = s \<and> active (heap ?w2 l')"
        by simp
    qed
    moreover from sends_only_fields(1)[OF s] nl have "\<forall>s. lobbies w' s \<noteq> Some l" by simp
    ultimately show ?thesis using sends_only_registry_ok[OF s] by simp
  qed
qed

lemma registry_ok_setters [simp]:
  "registry_ok (set_name lib c n w) = registry_ok w"
  "registry_ok (set_game_version c v w) = registry_ok w"
  "registry_ok (set_lobby c l w) = registry_ok w"
  "registry_ok (close_socket c w) = registry_ok w"
  by (simp_all add: registry_ok_def set_name_def set_game_version_def set_lobby_def
      close_socket_def)

lemma send_json_registry_ok:
  "send_json c fr w = (w', r) \<Longrightarrow> registry_ok w' = registry_ok w"
  by (auto dest: send_json_sends simp: sends_only_registry_ok)

lemma action_identify_inv:
  assumes "action_identify lib c d w = (w', r)" and "registry_ok w"
  shows "registry_ok w'"
proof (cases "map_of d ''name''")
  case None
  with assms show ?thesis by (simp add: action_identify_def)
next
  case n: (Some n)
  show ?thesis
  proof (cases "map_of d ''game_version''")
    case None
    with assms n show ?thesis by (auto simp: action_identify_def Let_def)
  next
    case (Some v)
    with assms(1) n obtain fr where
      "send_json c fr (set_game_version c v (set_name lib c n w)) = (w', r)"
      by (auto simp: action_identify_def Let_def)
    from send_json_registry_ok[OF this] assms(2) show ?thesis by simp
  qed
qed

lemma action_create_inv:
  assumes "action_create c d w = (w', r)" and "registry_ok w"
  shows "registry_ok w'"
proof -
  obtain w1 r1 where lc: "Lobby_create c (game_version (threads w c)) w = (w1, r1)"
    by (cases "Lobby_create c (game_version (threads w c)) w")
  from Lobby_create_registry_ok[OF lc assms(2)] have r1: "registry_ok w1" .
  from assms(1) lc have "w' = w1 \<or> (\<exists>l. w' = set_lobby c l w1)"
    by (cases r1) (auto simp: action_create_def)
  with r1 show ?thesis by auto
qed

lemma action_join_inv:
  assumes "action_join lib c d w = (w', r)" and "registry_ok w"
  shows "registry_ok w'"
proof (cases "map_of d ''code''")
  case None
  with assms show ?thesis by (simp add: action_join_def)
next
  case (Some cd)
  obtain w1 r1 where lj: "Lobby_join c cd (game_version (threads w c)) w = (w1, r1)"
    by (cases "Lobby_join c cd (game_version (threads w c)) w")
  from Lobby_join_registry_ok[OF lj assms(2)] have r1: "registry_ok w1" .
  have "w' = w1 \<or> (\<exists>l. w' = set_lobby c l w1) \<or> (\<exists>fr. send_json c fr w1 = (w', r))"
  proof (cases r1)
    case (Inl e)
    with assms(1) Some lj show ?thesis by (cases e) (auto simp: action_join_def)
  next
    case (Inr l)
    with assms(1) Some lj show ?thesis by (auto simp: action_join_def)
  qed
  with r1 show ?thesis by (auto dest: send_json_registry_ok)
qed

lemma action_turn_inv:
  assumes "action_turn c d w = (w', r)" and "registry_ok w"
  shows "registry_ok w'"
proof -
  from assms(1) have "(\<exists>fr. send_json c fr w = (w', r)) \<or>
      (\<exists>l fr. Lobby_message l fr [c] w = (w', r))"
    by (auto simp: action_turn_def split: if_splits option.splits)
  then have "sends_only w w'"
    using send_json_sends Lobby_message_sends by blast
  with assms(2) show ?thesis by (simp add: sends_only_registry_ok)
qed

lemma handle_message_inv:
  assumes "handle_message lib c d w = (w', r)" and "registry_ok w"
  shows "registry_ok w'"
proof (cases d)
  case (JObj fs)
  show ?thesis
  proof (cases "map_of fs ''action''")
    case None
    with assms(1) JObj have "send_json c (error_frame ''unknown_action'') w = (w', r)" by simp
    from send_json_registry_ok[OF this] assms(2) show ?thesis by simp
  next
    case (Some a)
    consider (identify) "a = JStr ''identify''" | (create) "a = JStr ''create''"
      | (join) "a = JStr ''join''" | (turn) "a = JStr ''turn''"
      | (unknown) "a \<noteq> JStr ''identify''" "a \<noteq> JStr ''create''" "a \<noteq> JStr ''join''"
          "a \<noteq> JStr ''turn''"
      by blast
    then show ?thesis
    proof cases
      case identify
      with assms(1) JObj Some have "action_identify lib c fs w = (w', r)" by simp
      from action_identify_inv[OF this assms(2)] show ?thesis .
    next
      case create
      with assms(1) JObj Some have "action_create c fs w = (w', r)" by simp
      from action_create_inv[OF this assms(2)] show ?thesis .
    next
      case join
      with assms(1) JObj Some have "action_join lib c fs w = (w', r)" by simp
      from action_join_inv[OF this assms(2)] show ?thesis .
    next
      case turn
      with assms(1) JObj Some have "action_turn c fs w = (w', r)" by simp
      from action_turn_inv[OF this assms(2)] show ?thesis .
    next
      case unknown
      with assms(1) JObj Some have "send_json c (error_frame ''unknown_action'') w = (w', r)"
        by simp
      from send_json_registry_ok[OF this] assms(2) show ?thesis by simp
    qed
  qed
next
  case (JArr xs)
  with assms(1) have "w' = w \<or> send_json c (error_frame ''unknown_action'') w = (w', r)"
    by (auto split: if_splits)
  with assms(2) show ?thesis by (auto dest: send_json_registry_ok)
next
  case (JStr s)
  with assms(1) have "w' = w \<or> send_json c (error_frame ''unknown_action'') w = (w', r)"
    by (auto split: if_splits)
  with assms(2) show ?thesis by (auto dest: send_json_registry_ok)
qed (use assms in auto)

lemma run_exit_inv:
  assumes "run_exit c w = (w', r)" and "registry_ok w"
  shows "registry_ok w'"
proof (cases "lobby (threads w c)")
  case None
  with assms show ?thesis by (auto simp: run_exit_def)
next
  case (Some l)
  obtain w1 r1 where d: "Lobby_disconnect l (name (threads w c)) w = (w1, r1)"
    by (cases "Lobby_disconnect l (name (threads w c)) w")
  from Lobby_disconnect_registry_ok[OF d assms(2)] have r1: "registry_ok w1" by simp
  from assms(1) Some d have "w' = w1 \<or> w' = close_socket c w1"
    by (cases r1) (auto simp: run_exit_def)
  with r1 show ?thesis by auto
qed

lemma reachable_registry_ok: "reachable w \<Longrightarrow> registry_ok w"
proof (induction rule: reachable.induct)
  case (start draws)
  show ?case by (simp add: registry_ok_def init_world_def)
next
  case (message w lib c d)
  then show ?case
    using handle_message_inv[of lib c d w "fst (handle_message lib c d w)"
        "snd (handle_message lib c d w)"] by simp
next
  case (exit w c)
  then show ?case
    using run_exit_inv[of c w "fst (run_exit c w)" "snd (run_exit c w)"] by simp
qed

text \<open>
  Claim C5. In every state that the handlers lead to, taken one frame or one end of
  stream at a time, a lobby that is in the registry has an entry that is no
  tombstone; and when \<^verbatim>\<open>Lobby.disconnect\<close> leaves a lobby with nothing but tombstones,
  the lobby is in the registry no more.
\<close>

theorem registered_lobby_active:
  assumes "reachable w"
  shows "(\<forall>s l. lobbies w s = Some l \<longrightarrow> active (heap w l)) \<and>
    (\<forall>l n w' r. Lobby_disconnect l n w = (w', r) \<and> \<not> active (heap w' l)
        \<longrightarrow> (\<forall>s. lobbies w' s \<noteq> Some l))"
proof -
  from reachable_registry_ok[OF assms] have ok: "registry_ok w" .
  then have "\<forall>s l. lobbies w s = Some l \<longrightarrow> active (heap w l)"
    by (simp add: registry_ok_def)
  moreover have "\<forall>l n w' r. Lobby_disconnect l n w = (w', r) \<and> \<not> active (heap w' l)
        \<longrightarrow> (\<forall>s. lobbies w' s \<noteq> Some l)"
    using Lobby_disconnect_registry_ok[OF _ ok] by blast
  ultimately show ?thesis by blast
qed

theorem registered_lobby_active_witness:
  "reachable bob_gone_world \<and> lobbies bob_gone_world ''ABCD'' = Some 0 \<and>
   active (heap bob_gone_world 0) \<and>
   \<not> active (heap (fst (Lobby_disconnect 0 ''Alice'' bob_gone_world)) 0) \<and>
   lobbies (fst (Lobby_disconnect 0 ''Alice'' bob_gone_world)) ''ABCD'' \<noteq> Some 0"
proof -
  let ?w' = "fst (Lobby_disconnect 0 ''Alice'' bob_gone_world)"
  note t = registered_lobby_active [OF reachable_bob_gone_world]
  have reg: "lobbies bob_gone_world ''ABCD'' = Some 0"
    by (simp add: bob_gone_world_eq)
  with t have act: "active (heap bob_gone_world 0)" by blast
  have na: "\<not> active (heap ?w' 0)"
    by (simp add: bob_gone_world_eq session_defs active_def)
  have "Lobby_disconnect 0 ''Alice'' bob_gone_world
      = (?w', snd (Lobby_disconnect 0 ''Alice'' bob_gone_world))" by simp
  with t na have "lobbies ?w' ''ABCD'' \<noteq> Some 0" by blast
  with reachable_bob_gone_world reg act na show ?thesis by simp
qed

text \<open>
  Claim C6. A code that \<^verbatim>\<open>generate_code\<close> returns has four characters, all of the
  alphabet of the 26 capital letters, and is not registered. \<^verbatim>\<open>Lobby.create\<close> registers
  its lobby under such a code and leaves the rest of the registry as it is. And in
  every state that the handlers lead to, two different lobbies in the registry carry
  different codes.
\<close>

theorem registered_codes_distinct:
  "(generate_code reg draws = Some (cd, rest) \<longrightarrow>
      length cd = 4 \<and> set cd \<subseteq> set alphabet \<and> reg cd = None) \<and>
   (Lobby_create c v w = (w', Inr l) \<longrightarrow>
      (\<exists>cd'. length cd' = 4 \<and> set cd' \<subseteq> set alphabet \<and> lobbies w cd' = None \<and>
         lobbies w' = (lobbies w)(cd' \<mapsto> l) \<and> code (heap w' l) = cd')) \<and>
   (reachable w \<and> lobbies w s1 = Some l1 \<and> lobbies w s2 = Some l2 \<and> l1 \<noteq> l2 \<longrightarrow>
      code (heap w l1) \<noteq> code (heap w l2))"
proof -
  have g: "generate_code reg draws = Some (cd, rest) \<longrightarrow>
      length cd = 4 \<and> set cd \<subseteq> set alphabet \<and> reg cd = None"
    using generate_code_spec by blast
  have c: "Lobby_create c v w = (w', Inr l) \<longrightarrow>
      (\<exists>cd'. length cd' = 4 \<and> set cd' \<subseteq> set alphabet \<and> lobbies w cd' = None \<and>
         lobbies w' = (lobbies w)(cd' \<mapsto> l) \<and> code (heap w' l) = cd')"
  proof
    assume lc: "Lobby_create c v w = (w', Inr l)"
    from Lobby_create_cases[OF lc] obtain cd' rest' where
      g: "generate_code (lobbies w) (rng w) = Some (cd', rest')"
      and l: "l = nlobbies w"
      and s: "sends_only (set_client (nlobbies w) (name (threads w c)) (Some c)
                  (w\<lparr>lobbies := (lobbies w)(cd' \<mapsto> nlobbies w),
                     heap := (heap w)(nlobbies w := Lobby_init cd' v),
                     nlobbies := Suc (nlobbies w), rng := rest'\<rparr>)) w'"
      by auto
    from sends_only_fields(1,2)[OF s] l
    have "lobbies w' = (lobbies w)(cd' \<mapsto> l)" "code (heap w' l) = cd'"
      by (simp_all add: set_client_def Lobby_init_def)
    with generate_code_spec[OF g]
    show "\<exists>cd'. length cd' = 4 \<and> set cd' \<subseteq> set alphabet \<and> lobbies w cd' = None \<and>
           lobbies w' = (lobbies w)(cd' \<mapsto> l) \<and> code (heap w' l) = cd'" by blast
  qed
  have r: "reachable w \<and> lobbies w s1 = Some l1 \<and> lobbies w s2 = Some l2 \<and> l1 \<noteq> l2 \<longrightarrow>
      code (heap w l1) \<noteq> code (heap w l2)"
  proof
    assume a: "reachable w \<and> lobbies w s1 = Some l1 \<and> lobbies w s2 = Some l2 \<and> l1 \<noteq> l2"
    with reachable_registry_ok[of w] have "code (heap w l1) = s1" "code (heap w l2) = s2"
      by (auto simp: registry_ok_def)
    moreover from a have "s1 \<noteq> s2" by auto
    ultimately show "code (heap w l1) \<noteq> code (heap w l2)" by simp
  qed
  from g c r show ?thesis by (intro conjI)
qed

theorem registered_codes_distinct_witness:
  "generate_code (lobbies alice_world) [0, 1, 2, 3, 4, 5, 6, 7] = Some (''EFGH'', []) \<and>
   length ''EFGH'' = 4 \<and> set ''EFGH'' \<subseteq> set alphabet \<and> lobbies alice_world ''EFGH'' = None \<and>
   lobbies two_lobby_world ''ABCD'' = Some 0 \<and> lobbies two_lobby_world ''EFGH'' = Some 1 \<and>
   code (heap two_lobby_world 0) \<noteq> code (heap two_lobby_world 1)"
proof -
  have g: "generate_code (lobbies alice_world) [0, 1, 2, 3, 4, 5, 6, 7] = Some (''EFGH'', [])"
    by (simp add: alice_world_eq alphabet_def choice_def Let_def)
  have r: "lobbies two_lobby_world ''ABCD'' = Some 0" "lobbies two_lobby_world ''EFGH'' = Some 1"
    by (simp_all add: two_lobby_world_def alice_world_eq session_defs)
  note t = registered_codes_distinct [where reg = "lobbies alice_world"
      and draws = "[0, 1, 2, 3, 4, 5, 6, 7]" and cd = "''EFGH''" and rest = "[]"
      and w = two_lobby_world and ?s1.0 = "''ABCD''" and ?l1.0 = 0 and ?s2.0 = "''EFGH''"
      and ?l2.0 = 1]
  from t g r reachable_two_lobby_world show ?thesis by simp
qed

end
